theory Spec2Isabelle
  imports Complex_Main
begin

section \<open>Investments distribution calculator\<close>

text \<open>
  A shallow embedding of \<^verbatim>\<open>investments_calc.py\<close>. Python's \<^verbatim>\<open>Decimal\<close> values are
  modelled as rationals (type \<^typ>\<open>rat\<close>): addition, subtraction, multiplication and
  comparison are exact, and the rounding of the decimal context to 28 significant digits
  is not modelled. Share counts are integers. An exception that aborts the run is a value
  \<open>Inl e\<close> of the result type.
\<close>

datatype error = Error | LogicalError | KeyError | TypeError | DecimalException

subsection \<open>Decimal operations\<close>

text \<open>
  \<^verbatim>\<open>a / b\<close> on decimals raises when \<open>b\<close> is zero. \<^verbatim>\<open>a // b\<close> on decimals raises
  when \<open>b\<close> is zero and otherwise returns the integer part of the quotient, truncated
  towards zero (unlike \<^verbatim>\<open>//\<close> on Python's integers, which floors).
\<close>

definition dec_div :: "rat \<Rightarrow> rat \<Rightarrow> error + rat" where
  "dec_div a b = (if b = 0 then Inl DecimalException else Inr (a / b))"

definition dec_truncate :: "rat \<Rightarrow> int" where
  "dec_truncate q = (if 0 \<le> q then \<lfloor>q\<rfloor> else \<lceil>q\<rceil>)"

definition dec_floordiv :: "rat \<Rightarrow> rat \<Rightarrow> error + int" where
  "dec_floordiv a b = (if b = 0 then Inl DecimalException else Inr (dec_truncate (a / b)))"

subsection \<open>Commission model\<close>

record commission_spec =
  minimum :: rat
  percent :: "rat option"
  per_share :: "rat option"
  maximum_percent :: "rat option"

definition CommissionSpec_calculate :: "commission_spec \<Rightarrow> int \<Rightarrow> rat \<Rightarrow> rat" where
  "CommissionSpec_calculate cs shares price =
     (let commissions0 = (0::rat);
          commissions1 = (case percent cs of None \<Rightarrow> commissions0
             | Some p \<Rightarrow> commissions0 + of_int shares * price * p / 100);
          commissions2 = (case per_share cs of None \<Rightarrow> commissions1
             | Some ps \<Rightarrow> commissions1 + of_int shares * ps);
          commissions3 = (case maximum_percent cs of None \<Rightarrow> commissions2
             | Some mp \<Rightarrow> min commissions2 (of_int shares * price * mp / 100))
      in max (minimum cs) commissions3)"

subsection \<open>Holdings and portfolios\<close>

text \<open>
  A \<^verbatim>\<open>Holding\<close> is either an instrument (it has a ticker) or a group of holdings. The
  attributes every holding has are in \<open>common_fields\<close>, the attributes only an instrument has
  in \<open>leaf_fields\<close>. The attribute \<^verbatim>\<open>value\<close> is called \<open>value_fld\<close> here. An attribute
  that holds \<^verbatim>\<open>None\<close> is \<open>None\<close>.
\<close>

record common_fields =
  name :: string
  expected_weight :: rat
  weight :: rat
  current_value :: "rat option"
  value_fld :: "rat option"
  minimum_value :: "rat option"
  selling_restricted :: "bool option"
  sell_blocked :: bool
  maximum_value :: "rat option"
  buying_restricted :: "bool option"
  buy_blocked :: bool

record leaf_fields =
  ticker :: string
  current_shares :: int
  shares :: int
  commission :: rat
  price :: "rat option"

datatype holding = Leaf common_fields leaf_fields | Group common_fields "holding list"

fun common :: "holding \<Rightarrow> common_fields" where
  "common (Leaf c l) = c"
| "common (Group c hs) = c"

fun is_group :: "holding \<Rightarrow> bool" where
  "is_group (Leaf c l) = False"
| "is_group (Group c hs) = True"

fun set_weight :: "holding \<Rightarrow> rat \<Rightarrow> holding" where
  "set_weight (Leaf c l) w = Leaf (c\<lparr>weight := w\<rparr>) l"
| "set_weight (Group c hs) w = Group (c\<lparr>weight := w\<rparr>) hs"

text \<open>
  \<^verbatim>\<open>Holding.__init__\<close>, with the weight given as the number of percent (the source strips
  the percent sign of a string and divides by 100).
\<close>

definition new_common :: "string \<Rightarrow> rat \<Rightarrow> common_fields" where
  "new_common nm percents =
     \<lparr>name = nm, expected_weight = percents / 100, weight = percents / 100,
      current_value = None, value_fld = None,
      minimum_value = None, selling_restricted = None, sell_blocked = False,
      maximum_value = None, buying_restricted = None, buy_blocked = False\<rparr>"

definition Holding :: "string \<Rightarrow> rat \<Rightarrow> string option \<Rightarrow> int option \<Rightarrow> holding list \<Rightarrow> error + holding" where
  "Holding nm percents tick shrs hs =
     (if (tick \<noteq> None) = (hs \<noteq> []) then Inl Error
      else if (tick = None) \<noteq> (shrs = None) then Inl Error
      else (case (tick, shrs) of
          (Some t, Some n) \<Rightarrow>
            Inr (Leaf (new_common (nm @ '' ('' @ t @ '')'') percents)
                   \<lparr>ticker = t, current_shares = n, shares = n, commission = 0, price = None\<rparr>)
        | _ \<Rightarrow> Inr (Group (new_common nm percents) hs)))"

text \<open>\<^verbatim>\<open>apply_restriction\<close> with the attribute name resolved: one function per attribute.\<close>

fun apply_selling_restriction :: "holding list \<Rightarrow> bool \<Rightarrow> holding list" where
  "apply_selling_restriction [] v = []"
| "apply_selling_restriction (Leaf c l # hs) v =
     Leaf (if selling_restricted c = None then c\<lparr>selling_restricted := Some v\<rparr> else c) l
       # apply_selling_restriction hs v"
| "apply_selling_restriction (Group c ch # hs) v =
     Group c (apply_selling_restriction ch v) # apply_selling_restriction hs v"

fun apply_buying_restriction :: "holding list \<Rightarrow> bool \<Rightarrow> holding list" where
  "apply_buying_restriction [] v = []"
| "apply_buying_restriction (Leaf c l # hs) v =
     Leaf (if buying_restricted c = None then c\<lparr>buying_restricted := Some v\<rparr> else c) l
       # apply_buying_restriction hs v"
| "apply_buying_restriction (Group c ch # hs) v =
     Group c (apply_buying_restriction ch v) # apply_buying_restriction hs v"

fun restrict_selling :: "holding \<Rightarrow> bool \<Rightarrow> holding" where
  "restrict_selling (Group c hs) restrict = Group c (apply_selling_restriction hs restrict)"
| "restrict_selling (Leaf c l) restrict = Leaf (c\<lparr>selling_restricted := Some restrict\<rparr>) l"

fun restrict_buying :: "holding \<Rightarrow> bool \<Rightarrow> holding" where
  "restrict_buying (Group c hs) restrict = Group c (apply_buying_restriction hs restrict)"
| "restrict_buying (Leaf c l) restrict = Leaf (c\<lparr>buying_restricted := Some restrict\<rparr>) l"

record portfolio =
  portfolio_name :: string
  currency :: string
  commission_spec :: commission_spec
  portfolio_holdings :: "holding list"
  free_assets :: rat
  min_free_assets :: rat
  min_trade_volume :: rat
  free_commissions :: "rat option"

subsection \<open>Valuation pass\<close>

text \<open>
  \<^verbatim>\<open>calculate_current_value\<close>: the loop over the holdings, with the running total as an
  argument; \<open>prices\<close> is the dictionary of prices, and a ticker it lacks raises.
\<close>

fun current_value_loop :: "holding list \<Rightarrow> (string \<Rightarrow> rat option) \<Rightarrow> rat \<Rightarrow> error + (holding list \<times> rat)" where
  "current_value_loop [] prices total_value = Inr ([], total_value)"
| "current_value_loop (Group c ch # hs) prices total_value =
     (case current_value_loop ch prices 0 of
        Inl e \<Rightarrow> Inl e
      | Inr (ch', v) \<Rightarrow>
          (case current_value_loop hs prices (total_value + v) of
             Inl e \<Rightarrow> Inl e
           | Inr (hs', t) \<Rightarrow>
               Inr (Group (c\<lparr>current_value := Some v, value_fld := Some v\<rparr>) ch' # hs', t)))"
| "current_value_loop (Leaf c l # hs) prices total_value =
     (case prices (ticker l) of
        None \<Rightarrow> Inl KeyError
      | Some p \<Rightarrow>
          (let v = of_int (current_shares l) * p in
           case current_value_loop hs prices (total_value + v) of
             Inl e \<Rightarrow> Inl e
           | Inr (hs', t) \<Rightarrow>
               Inr (Leaf (c\<lparr>current_value := Some v, value_fld := Some v\<rparr>) (l\<lparr>price := Some p\<rparr>) # hs',
                    t)))"

definition calculate_current_value :: "holding list \<Rightarrow> (string \<Rightarrow> rat option) \<Rightarrow> error + (holding list \<times> rat)" where
  "calculate_current_value hs prices = current_value_loop hs prices 0"

subsection \<open>Restriction propagator\<close>

text \<open>
  \<^verbatim>\<open>calculate_restrictions\<close>: the loop carries \<^verbatim>\<open>total_minimum_value\<close> and the list
  \<^verbatim>\<open>maximum_values\<close>; the function itself compares the length of that list with the
  number of holdings.
\<close>

definition restrict_leaf :: "common_fields \<Rightarrow> common_fields" where
  "restrict_leaf c =
     (let c1 = (if selling_restricted c = Some True then c\<lparr>minimum_value := current_value c\<rparr> else c);
          c2 = (if buying_restricted c1 = Some True then c1\<lparr>maximum_value := current_value c1\<rparr> else c1)
      in c2)"

fun add_minimum_value :: "rat option \<Rightarrow> rat option \<Rightarrow> rat option" where
  "add_minimum_value total_minimum_value None = total_minimum_value"
| "add_minimum_value None (Some m) = Some m"
| "add_minimum_value (Some t) (Some m) = Some (t + m)"

fun append_maximum_value :: "rat list \<Rightarrow> rat option \<Rightarrow> rat list" where
  "append_maximum_value maximum_values None = maximum_values"
| "append_maximum_value maximum_values (Some m) = maximum_values @ [m]"

fun restrictions_loop :: "holding list \<Rightarrow> rat option \<Rightarrow> rat list \<Rightarrow> holding list \<times> rat option \<times> rat list"
  and calculate_restrictions :: "holding list \<Rightarrow> holding list \<times> rat option \<times> rat option" where
  "restrictions_loop [] total_minimum_value maximum_values = ([], total_minimum_value, maximum_values)"
| "restrictions_loop (Group c ch # hs) total_minimum_value maximum_values =
     (case calculate_restrictions ch of
        (ch', mn, mx) \<Rightarrow>
          (case restrictions_loop hs (add_minimum_value total_minimum_value mn)
                  (append_maximum_value maximum_values mx) of
             (hs', r) \<Rightarrow> (Group (c\<lparr>minimum_value := mn, maximum_value := mx\<rparr>) ch' # hs', r)))"
| "restrictions_loop (Leaf c l # hs) total_minimum_value maximum_values =
     (let c' = restrict_leaf c in
      case restrictions_loop hs (add_minimum_value total_minimum_value (minimum_value c'))
              (append_maximum_value maximum_values (maximum_value c')) of
        (hs', r) \<Rightarrow> (Leaf c' l # hs', r))"
| "calculate_restrictions hs =
     (case restrictions_loop hs None [] of
        (hs', total_minimum_value, maximum_values) \<Rightarrow>
          (hs', total_minimum_value,
           if length maximum_values = length hs then Some (sum_list maximum_values) else None))"

text \<open>
  What the restriction pass is to establish, in the words of the specification: the values
  that are set among a list of optional values, their sum when at least one is set, and
  their sum when all are set.
\<close>

fun present :: "rat option list \<Rightarrow> rat list" where
  "present [] = []"
| "present (None # ms) = present ms"
| "present (Some m # ms) = m # present ms"

definition sum_present :: "rat option list \<Rightarrow> rat option" where
  "sum_present ms = (if present ms = [] then None else Some (sum_list (present ms)))"

definition sum_if_all_defined :: "rat option list \<Rightarrow> rat option" where
  "sum_if_all_defined ms =
     (if list_all (\<lambda>m. m \<noteq> None) ms then Some (sum_list (present ms)) else None)"

fun restrictions_propagated :: "holding \<Rightarrow> bool" where
  "restrictions_propagated (Leaf c l) =
     (minimum_value c = (if selling_restricted c = Some True then current_value c else None)
      \<and> maximum_value c = (if buying_restricted c = Some True then current_value c else None))"
| "restrictions_propagated (Group c hs) =
     (minimum_value c = sum_present (map (\<lambda>h. minimum_value (common h)) hs)
      \<and> maximum_value c = sum_if_all_defined (map (\<lambda>h. maximum_value (common h)) hs)
      \<and> list_all restrictions_propagated hs)"

text \<open>The state \<^verbatim>\<open>Holding.__init__\<close> leaves the restriction values of the instruments in.\<close>

fun restriction_values_unset :: "holding \<Rightarrow> bool" where
  "restriction_values_unset (Leaf c l) = (minimum_value c = None \<and> maximum_value c = None)"
| "restriction_values_unset (Group c hs) = list_all restriction_values_unset hs"

subsection \<open>Weight corrector\<close>

text \<open>
  The two correction passes. In one iteration of the loop the source partitions the
  siblings into those whose expected value is at or beyond their bound (here: pinned) and
  the correctable ones, adding up by how much the pinned ones are beyond; then it scales
  the weights of the correctable ones, clamping a weight that would go beyond the
  holding's own bound. \<open>E\<close> is \<^verbatim>\<open>expected_total_value\<close>.
\<close>

lemma size_set_weight: "size (set_weight h w) = size h"
  by (cases h) simp_all

definition selling_pinned :: "rat \<Rightarrow> holding \<Rightarrow> bool" where
  "selling_pinned E h =
     (case minimum_value (common h) of None \<Rightarrow> False | Some m \<Rightarrow> E * weight (common h) \<le> m)"

definition selling_correctable_holdings :: "holding list \<Rightarrow> rat \<Rightarrow> holding list" where
  "selling_correctable_holdings hs E = filter (\<lambda>h. \<not> selling_pinned E h) hs"

definition total_assets_overuse :: "holding list \<Rightarrow> rat \<Rightarrow> rat" where
  "total_assets_overuse hs E =
     sum_list (map (\<lambda>h. case minimum_value (common h) of None \<Rightarrow> 0
                          | Some m \<Rightarrow> m - E * weight (common h))
                 (filter (selling_pinned E) hs))"


definition selling_corrected_weight :: "rat \<Rightarrow> rat \<Rightarrow> holding \<Rightarrow> error + (rat \<times> bool)" where
  "selling_corrected_weight E correction_multiplicator h =
     (let corrected_weight = weight (common h) * correction_multiplicator in
      case minimum_value (common h) of
        None \<Rightarrow> Inr (corrected_weight, False)
      | Some m \<Rightarrow>
          if E * corrected_weight < m
          then (case dec_div m E of Inl e \<Rightarrow> Inl e | Inr w \<Rightarrow> Inr (w, True))
          else Inr (corrected_weight, False))"

fun selling_correct :: "holding list \<Rightarrow> rat \<Rightarrow> rat \<Rightarrow> error + (holding list \<times> bool)" where
  "selling_correct [] E correction_multiplicator = Inr ([], True)"
| "selling_correct (h # hs) E correction_multiplicator =
     (if selling_pinned E h
      then (case selling_correct hs E correction_multiplicator of
              Inl e \<Rightarrow> Inl e
            | Inr (hs', succeeded) \<Rightarrow> Inr (h # hs', succeeded))
      else (case selling_corrected_weight E correction_multiplicator h of
              Inl e \<Rightarrow> Inl e
            | Inr (w, clamped) \<Rightarrow>
                (case selling_correct hs E correction_multiplicator of
                   Inl e \<Rightarrow> Inl e
                 | Inr (hs', succeeded) \<Rightarrow> Inr (set_weight h w # hs', succeeded \<and> \<not> clamped))))"

definition selling_multiplicator :: "holding list \<Rightarrow> rat \<Rightarrow> error + rat" where
  "selling_multiplicator hs E =
     (let expected_value =
            sum_list (map (\<lambda>h. E * weight (common h)) (selling_correctable_holdings hs E))
      in dec_div (expected_value - total_assets_overuse hs E) expected_value)"

definition selling_iteration :: "holding list \<Rightarrow> rat \<Rightarrow> error + (holding list \<times> bool)" where
  "selling_iteration hs E =
     (if total_assets_overuse hs E > 0
      then (if selling_correctable_holdings hs E \<noteq> []
            then (case selling_multiplicator hs E of
                    Inl e \<Rightarrow> Inl e
                  | Inr correction_multiplicator \<Rightarrow> selling_correct hs E correction_multiplicator)
            else Inr (hs, False))
      else Inr (hs, True))"

lemma selling_pinned_set_weight:
  "selling_pinned E (set_weight h w) =
     (case minimum_value (common h) of None \<Rightarrow> False | Some m \<Rightarrow> E * w \<le> m)"
  by (cases h) (simp_all add: selling_pinned_def cong: option.case_cong)

lemma selling_corrected_weight_clamped:
  "selling_corrected_weight E k h = Inr (w, True) \<Longrightarrow> selling_pinned E (set_weight h w)"
  by (auto simp: selling_corrected_weight_def selling_pinned_set_weight dec_div_def Let_def
      split: option.splits if_splits)

lemma selling_correct_Cons:
  assumes "selling_correct (h # hs) E k = Inr (hs', succeeded)"
  shows "\<exists>h' hs1 s1. hs' = h' # hs1 \<and> selling_correct hs E k = Inr (hs1, s1) \<and>
           (if selling_pinned E h then h' = h \<and> succeeded = s1
            else \<exists>w clamped. selling_corrected_weight E k h = Inr (w, clamped) \<and>
                   h' = set_weight h w \<and> succeeded = (s1 \<and> \<not> clamped))"
  using assms by (simp split: if_splits sum.splits prod.splits)

lemma selling_correct_count:
  "selling_correct hs E k = Inr (hs', succeeded) \<Longrightarrow>
   length (selling_correctable_holdings hs' E) + (if succeeded then 0 else 1)
     \<le> length (selling_correctable_holdings hs E)"
proof (induction hs arbitrary: hs' succeeded)
  case Nil
  then show ?case by (auto simp: selling_correctable_holdings_def)
next
  case (Cons h hs)
  from selling_correct_Cons[OF Cons.prems] obtain h' hs1 s1 where
    e: "hs' = h' # hs1" and r: "selling_correct hs E k = Inr (hs1, s1)" and
    c: "if selling_pinned E h then h' = h \<and> succeeded = s1
        else \<exists>w clamped. selling_corrected_weight E k h = Inr (w, clamped) \<and>
               h' = set_weight h w \<and> succeeded = (s1 \<and> \<not> clamped)"
    by blast
  show ?case
  proof (cases "selling_pinned E h")
    case True
    with Cons.IH[OF r] c e show ?thesis
      by (simp add: selling_correctable_holdings_def)
  next
    case False
    with c obtain w clamped where
      w: "selling_corrected_weight E k h = Inr (w, clamped)" "h' = set_weight h w"
         "succeeded = (s1 \<and> \<not> clamped)"
      by auto
    have p: "clamped \<Longrightarrow> selling_pinned E h'"
      using w(1,2) by (auto dest: selling_corrected_weight_clamped)
    from Cons.IH[OF r] False e w(3) p show ?thesis
      by (cases clamped; cases s1) (auto simp: selling_correctable_holdings_def)
  qed
qed

lemma selling_iteration_correct:
  assumes "selling_iteration hs E = Inr (hs', succeeded)"
    and "\<not> succeeded" and "selling_correctable_holdings hs E \<noteq> []"
  shows "\<exists>k. total_assets_overuse hs E > 0 \<and> selling_multiplicator hs E = Inr k \<and> selling_correct hs E k = Inr (hs', succeeded)"
  using assms by (auto simp: selling_iteration_def split: if_splits sum.splits)

lemma selling_iteration_decreases:
  assumes "selling_iteration hs E = Inr (hs', succeeded)"
    and "\<not> succeeded" and "selling_correctable_holdings hs E \<noteq> []"
  shows "length (selling_correctable_holdings hs' E) < length (selling_correctable_holdings hs E)"
proof -
  from selling_iteration_correct[OF assms] obtain k where "selling_correct hs E k = Inr (hs', succeeded)"
    by blast
  from selling_correct_count[OF this] assms(2) show ?thesis by simp
qed

text \<open>
  The \<^verbatim>\<open>while True\<close> loop of \<^verbatim>\<open>correct_weights_for_selling_restriction\<close>: it goes round
  again (\<^verbatim>\<open>continue\<close>) when the iteration did not succeed and there were correctable
  holdings. The number of correctable holdings decreases with every round.
\<close>

function selling_loop :: "holding list \<Rightarrow> rat \<Rightarrow> error + (holding list \<times> bool)" where
  "selling_loop hs E =
     (case selling_iteration hs E of
        Inl e \<Rightarrow> Inl e
      | Inr (hs', succeeded) \<Rightarrow>
          if \<not> succeeded \<and> selling_correctable_holdings hs E \<noteq> []
          then selling_loop hs' E
          else Inr (hs', succeeded))"
  by pat_completeness auto
termination
  by (relation "measure (\<lambda>(hs, E). length (selling_correctable_holdings hs E))")
    (auto dest: selling_iteration_decreases)

declare selling_loop.simps [simp del]

lemma selling_correct_size:
  "selling_correct hs E k = Inr (hs', succeeded) \<Longrightarrow> size_list size hs' = size_list size hs"
proof (induction hs arbitrary: hs' succeeded)
  case Nil
  then show ?case by simp
next
  case (Cons h hs)
  then show ?case
    by (auto simp: size_set_weight split: if_splits sum.splits)
qed

lemma selling_iteration_size:
  "selling_iteration hs E = Inr (hs', succeeded) \<Longrightarrow> size_list size hs' = size_list size hs"
  by (auto simp: selling_iteration_def dest: selling_correct_size split: if_splits sum.splits)

lemma selling_loop_size:
  "selling_loop hs E = Inr (hs', succeeded) \<Longrightarrow> size_list size hs' = size_list size hs"
proof (induction hs E arbitrary: hs' succeeded rule: selling_loop.induct)
  case (1 hs E)
  from "1.prems" obtain hs1 s1 where it: "selling_iteration hs E = Inr (hs1, s1)"
    by (subst (asm) selling_loop.simps) (auto split: sum.splits)
  show ?case
  proof (cases "\<not> s1 \<and> selling_correctable_holdings hs E \<noteq> []")
    case True
    with "1.prems" it have "selling_loop hs1 E = Inr (hs', succeeded)"
      by (subst (asm) selling_loop.simps) simp
    from "1.IH"[OF it refl True this] selling_iteration_size[OF it] show ?thesis by simp
  next
    case False
    with "1.prems" it have "hs' = hs1"
      by (subst (asm) selling_loop.simps) auto
    with selling_iteration_size[OF it] show ?thesis by simp
  qed
qed

text \<open>
  \<^verbatim>\<open>correct_weights_for_selling_restriction\<close>: the loop over the siblings, then the recursion
  into every group with its share of the expected value.
\<close>

function correct_weights_for_selling_restriction :: "holding list \<Rightarrow> rat \<Rightarrow> error + (holding list \<times> bool)"
  and selling_recurse :: "holding list \<Rightarrow> rat \<Rightarrow> error + (holding list \<times> bool)" where
  "correct_weights_for_selling_restriction hs E =
     (case selling_loop hs E of
        Inl e \<Rightarrow> Inl e
      | Inr (hs', succeeded) \<Rightarrow>
          (case selling_recurse hs' E of
             Inl e \<Rightarrow> Inl e
           | Inr (hs'', s) \<Rightarrow> Inr (hs'', succeeded \<and> s)))"
| "selling_recurse [] E = Inr ([], True)"
| "selling_recurse (Leaf c l # hs) E =
     (case selling_recurse hs E of
        Inl e \<Rightarrow> Inl e
      | Inr (hs', s) \<Rightarrow> Inr (Leaf c l # hs', s))"
| "selling_recurse (Group c ch # hs) E =
     (case correct_weights_for_selling_restriction ch (E * weight c) of
        Inl e \<Rightarrow> Inl e
      | Inr (ch', s1) \<Rightarrow>
          (case selling_recurse hs E of
             Inl e \<Rightarrow> Inl e
           | Inr (hs', s2) \<Rightarrow> Inr (Group c ch' # hs', s1 \<and> s2)))"
  by pat_completeness auto
termination
  by (relation "measure (\<lambda>x. case x of Inl (hs, E) \<Rightarrow> 2 * size_list size hs + 1
                                      | Inr (hs, E) \<Rightarrow> 2 * size_list size hs)")
    (auto dest: selling_loop_size)

declare correct_weights_for_selling_restriction.simps [simp del]





definition buying_pinned :: "rat \<Rightarrow> holding \<Rightarrow> bool" where
  "buying_pinned E h =
     (case maximum_value (common h) of None \<Rightarrow> False | Some m \<Rightarrow> E * weight (common h) \<ge> m)"

definition buying_correctable_holdings :: "holding list \<Rightarrow> rat \<Rightarrow> holding list" where
  "buying_correctable_holdings hs E = filter (\<lambda>h. \<not> buying_pinned E h) hs"

definition extra_assets :: "holding list \<Rightarrow> rat \<Rightarrow> rat" where
  "extra_assets hs E =
     sum_list (map (\<lambda>h. case maximum_value (common h) of None \<Rightarrow> 0
                          | Some m \<Rightarrow> E * weight (common h) - m)
                 (filter (buying_pinned E) hs))"


definition buying_corrected_weight :: "rat \<Rightarrow> rat \<Rightarrow> holding \<Rightarrow> error + (rat \<times> bool)" where
  "buying_corrected_weight E correction_multiplicator h =
     (let corrected_weight = weight (common h) * correction_multiplicator in
      case maximum_value (common h) of
        None \<Rightarrow> Inr (corrected_weight, False)
      | Some m \<Rightarrow>
          if E * corrected_weight > m
          then (case dec_div m E of Inl e \<Rightarrow> Inl e | Inr w \<Rightarrow> Inr (w, True))
          else Inr (corrected_weight, False))"

fun buying_correct :: "holding list \<Rightarrow> rat \<Rightarrow> rat \<Rightarrow> error + (holding list \<times> bool)" where
  "buying_correct [] E correction_multiplicator = Inr ([], True)"
| "buying_correct (h # hs) E correction_multiplicator =
     (if buying_pinned E h
      then (case buying_correct hs E correction_multiplicator of
              Inl e \<Rightarrow> Inl e
            | Inr (hs', succeeded) \<Rightarrow> Inr (h # hs', succeeded))
      else (case buying_corrected_weight E correction_multiplicator h of
              Inl e \<Rightarrow> Inl e
            | Inr (w, clamped) \<Rightarrow>
                (case buying_correct hs E correction_multiplicator of
                   Inl e \<Rightarrow> Inl e
                 | Inr (hs', succeeded) \<Rightarrow> Inr (set_weight h w # hs', succeeded \<and> \<not> clamped))))"

definition buying_multiplicator :: "holding list \<Rightarrow> rat \<Rightarrow> error + rat" where
  "buying_multiplicator hs E =
     (let expected_value =
            sum_list (map (\<lambda>h. E * weight (common h)) (buying_correctable_holdings hs E))
      in dec_div (expected_value + extra_assets hs E) expected_value)"

definition buying_iteration :: "holding list \<Rightarrow> rat \<Rightarrow> error + (holding list \<times> bool)" where
  "buying_iteration hs E =
     (if extra_assets hs E \<noteq> 0
      then (if buying_correctable_holdings hs E \<noteq> []
            then (case buying_multiplicator hs E of
                    Inl e \<Rightarrow> Inl e
                  | Inr correction_multiplicator \<Rightarrow> buying_correct hs E correction_multiplicator)
            else Inr (hs, False))
      else Inr (hs, True))"

lemma buying_pinned_set_weight:
  "buying_pinned E (set_weight h w) =
     (case maximum_value (common h) of None \<Rightarrow> False | Some m \<Rightarrow> E * w \<ge> m)"
  by (cases h) (simp_all add: buying_pinned_def cong: option.case_cong)

lemma buying_corrected_weight_clamped:
  "buying_corrected_weight E k h = Inr (w, True) \<Longrightarrow> buying_pinned E (set_weight h w)"
  by (auto simp: buying_corrected_weight_def buying_pinned_set_weight dec_div_def Let_def
      split: option.splits if_splits)

lemma buying_correct_Cons:
  assumes "buying_correct (h # hs) E k = Inr (hs', succeeded)"
  shows "\<exists>h' hs1 s1. hs' = h' # hs1 \<and> buying_correct hs E k = Inr (hs1, s1) \<and>
           (if buying_pinned E h then h' = h \<and> succeeded = s1
            else \<exists>w clamped. buying_corrected_weight E k h = Inr (w, clamped) \<and>
                   h' = set_weight h w \<and> succeeded = (s1 \<and> \<not> clamped))"
  using assms by (simp split: if_splits sum.splits prod.splits)

lemma buying_correct_count:
  "buying_correct hs E k = Inr (hs', succeeded) \<Longrightarrow>
   length (buying_correctable_holdings hs' E) + (if succeeded then 0 else 1)
     \<le> length (buying_correctable_holdings hs E)"
proof (induction hs arbitrary: hs' succeeded)
  case Nil
  then show ?case by (auto simp: buying_correctable_holdings_def)
next
  case (Cons h hs)
  from buying_correct_Cons[OF Cons.prems] obtain h' hs1 s1 where
    e: "hs' = h' # hs1" and r: "buying_correct hs E k = Inr (hs1, s1)" and
    c: "if buying_pinned E h then h' = h \<and> succeeded = s1
        else \<exists>w clamped. buying_corrected_weight E k h = Inr (w, clamped) \<and>
               h' = set_weight h w \<and> succeeded = (s1 \<and> \<not> clamped)"
    by blast
  show ?case
  proof (cases "buying_pinned E h")
    case True
    with Cons.IH[OF r] c e show ?thesis
      by (simp add: buying_correctable_holdings_def)
  next
    case False
    with c obtain w clamped where
      w: "buying_corrected_weight E k h = Inr (w, clamped)" "h' = set_weight h w"
         "succeeded = (s1 \<and> \<not> clamped)"
      by auto
    have p: "clamped \<Longrightarrow> buying_pinned E h'"
      using w(1,2) by (auto dest: buying_corrected_weight_clamped)
    from Cons.IH[OF r] False e w(3) p show ?thesis
      by (cases clamped; cases s1) (auto simp: buying_correctable_holdings_def)
  qed
qed

lemma buying_iteration_correct:
  assumes "buying_iteration hs E = Inr (hs', succeeded)"
    and "\<not> succeeded" and "buying_correctable_holdings hs E \<noteq> []"
  shows "\<exists>k. extra_assets hs E \<noteq> 0 \<and> buying_multiplicator hs E = Inr k \<and> buying_correct hs E k = Inr (hs', succeeded)"
  using assms by (auto simp: buying_iteration_def split: if_splits sum.splits)

lemma buying_iteration_decreases:
  assumes "buying_iteration hs E = Inr (hs', succeeded)"
    and "\<not> succeeded" and "buying_correctable_holdings hs E \<noteq> []"
  shows "length (buying_correctable_holdings hs' E) < length (buying_correctable_holdings hs E)"
proof -
  from buying_iteration_correct[OF assms] obtain k where "buying_correct hs E k = Inr (hs', succeeded)"
    by blast
  from buying_correct_count[OF this] assms(2) show ?thesis by simp
qed

text \<open>
  The \<^verbatim>\<open>while True\<close> loop of \<^verbatim>\<open>correct_weights_for_buying_restriction\<close>: it goes round
  again (\<^verbatim>\<open>continue\<close>) when the iteration did not succeed and there were correctable
  holdings. The number of correctable holdings decreases with every round.
\<close>

function buying_loop :: "holding list \<Rightarrow> rat \<Rightarrow> error + (holding list \<times> bool)" where
  "buying_loop hs E =
     (case buying_iteration hs E of
        Inl e \<Rightarrow> Inl e
      | Inr (hs', succeeded) \<Rightarrow>
          if \<not> succeeded \<and> buying_correctable_holdings hs E \<noteq> []
          then buying_loop hs' E
          else Inr (hs', succeeded))"
  by pat_completeness auto
termination
  by (relation "measure (\<lambda>(hs, E). length (buying_correctable_holdings hs E))")
    (auto dest: buying_iteration_decreases)

declare buying_loop.simps [simp del]

lemma buying_correct_size:
  "buying_correct hs E k = Inr (hs', succeeded) \<Longrightarrow> size_list size hs' = size_list size hs"
proof (induction hs arbitrary: hs' succeeded)
  case Nil
  then show ?case by simp
next
  case (Cons h hs)
  then show ?case
    by (auto simp: size_set_weight split: if_splits sum.splits)
qed

lemma buying_iteration_size:
  "buying_iteration hs E = Inr (hs', succeeded) \<Longrightarrow> size_list size hs' = size_list size hs"
  by (auto simp: buying_iteration_def dest: buying_correct_size split: if_splits sum.splits)

lemma buying_loop_size:
  "buying_loop hs E = Inr (hs', succeeded) \<Longrightarrow> size_list size hs' = size_list size hs"
proof (induction hs E arbitrary: hs' succeeded rule: buying_loop.induct)
  case (1 hs E)
  from "1.prems" obtain hs1 s1 where it: "buying_iteration hs E = Inr (hs1, s1)"
    by (subst (asm) buying_loop.simps) (auto split: sum.splits)
  show ?case
  proof (cases "\<not> s1 \<and> buying_correctable_holdings hs E \<noteq> []")
    case True
    with "1.prems" it have "buying_loop hs1 E = Inr (hs', succeeded)"
      by (subst (asm) buying_loop.simps) simp
    from "1.IH"[OF it refl True this] buying_iteration_size[OF it] show ?thesis by simp
  next
    case False
    with "1.prems" it have "hs' = hs1"
      by (subst (asm) buying_loop.simps) auto
    with buying_iteration_size[OF it] show ?thesis by simp
  qed
qed

text \<open>
  \<^verbatim>\<open>correct_weights_for_buying_restriction\<close>: the loop over the siblings, then the recursion
  into every group with its share of the expected value.
\<close>

function correct_weights_for_buying_restriction :: "holding list \<Rightarrow> rat \<Rightarrow> error + (holding list \<times> bool)"
  and buying_recurse :: "holding list \<Rightarrow> rat \<Rightarrow> error + (holding list \<times> bool)" where
  "correct_weights_for_buying_restriction hs E =
     (case buying_loop hs E of
        Inl e \<Rightarrow> Inl e
      | Inr (hs', succeeded) \<Rightarrow>
          (case buying_recurse hs' E of
             Inl e \<Rightarrow> Inl e
           | Inr (hs'', s) \<Rightarrow> Inr (hs'', succeeded \<and> s)))"
| "buying_recurse [] E = Inr ([], True)"
| "buying_recurse (Leaf c l # hs) E =
     (case buying_recurse hs E of
        Inl e \<Rightarrow> Inl e
      | Inr (hs', s) \<Rightarrow> Inr (Leaf c l # hs', s))"
| "buying_recurse (Group c ch # hs) E =
     (case correct_weights_for_buying_restriction ch (E * weight c) of
        Inl e \<Rightarrow> Inl e
      | Inr (ch', s1) \<Rightarrow>
          (case buying_recurse hs E of
             Inl e \<Rightarrow> Inl e
           | Inr (hs', s2) \<Rightarrow> Inr (Group c ch' # hs', s1 \<and> s2)))"
  by pat_completeness auto
termination
  by (relation "measure (\<lambda>x. case x of Inl (hs, E) \<Rightarrow> 2 * size_list size hs + 1
                                      | Inr (hs, E) \<Rightarrow> 2 * size_list size hs)")
    (auto dest: buying_loop_size)

declare correct_weights_for_buying_restriction.simps [simp del]





subsection \<open>Rebalancer\<close>

definition get_weight :: "rat \<Rightarrow> rat option \<Rightarrow> error + rat" where
  "get_weight assets v =
     (if assets = 0 then Inr 1
      else (case v of None \<Rightarrow> Inl TypeError | Some x \<Rightarrow> Inr (x / assets)))"

text \<open>
  \<^verbatim>\<open>Holding.commission_for\<close> and \<^verbatim>\<open>Holding.change\<close>. Both are called only after the
  price of the instrument has been read, and take it as the argument \<open>p\<close>.
\<close>

definition commission_for :: "leaf_fields \<Rightarrow> rat \<Rightarrow> int \<Rightarrow> commission_spec \<Rightarrow> rat" where
  "commission_for l p n cs = CommissionSpec_calculate cs (abs (n - current_shares l)) p"

definition change :: "common_fields \<Rightarrow> leaf_fields \<Rightarrow> rat \<Rightarrow> int \<Rightarrow> commission_spec
    \<Rightarrow> common_fields \<times> leaf_fields" where
  "change c l p n cs =
     (c\<lparr>value_fld := Some (of_int n * p)\<rparr>, l\<lparr>commission := commission_for l p n cs, shares := n\<rparr>)"

definition on_sell_blocked :: "common_fields \<Rightarrow> common_fields" where
  "on_sell_blocked c = c\<lparr>sell_blocked := True\<rparr>"

definition on_buy_blocked :: "common_fields \<Rightarrow> common_fields" where
  "on_buy_blocked c = c\<lparr>buy_blocked := True\<rparr>"

text \<open>The body of the loop of \<^verbatim>\<open>rebalance\<close> for an instrument.\<close>

definition rebalance_leaf :: "rat \<Rightarrow> commission_spec \<Rightarrow> rat \<Rightarrow> common_fields \<Rightarrow> leaf_fields
    \<Rightarrow> error + (common_fields \<times> leaf_fields)" where
  "rebalance_leaf E cs mtv c l =
     (let expected_value = E * weight c in
      if shares l \<noteq> current_shares l then Inl LogicalError
      else case get_weight E (current_value c) of
        Inl e \<Rightarrow> Inl e
      | Inr current_weight \<Rightarrow>
          if current_weight \<noteq> weight c
          then (case price l of
              None \<Rightarrow> Inl TypeError
            | Some p \<Rightarrow>
              (case dec_floordiv expected_value p of
                 Inl e \<Rightarrow> Inl e
               | Inr n0 \<Rightarrow>
                 (case (if n0 \<noteq> current_shares l
                        then dec_floordiv (expected_value - commission_for l p n0 cs) p
                        else Inr n0) of
                    Inl e \<Rightarrow> Inl e
                  | Inr rebalanced_shares \<Rightarrow>
                      if rebalanced_shares \<noteq> current_shares l
                      then (if rebalanced_shares < current_shares l \<and> selling_restricted c = Some True
                            then Inr (on_sell_blocked c, l)
                            else if rebalanced_shares > current_shares l \<and> buying_restricted c = Some True
                            then Inr (on_buy_blocked c, l)
                            else if of_int (abs (rebalanced_shares - current_shares l)) * p < mtv
                            then (if rebalanced_shares < current_shares l
                                  then Inr (on_sell_blocked c, l)
                                  else Inr (on_buy_blocked c, l))
                            else Inr (change c l p rebalanced_shares cs))
                      else Inr (c, l))))
          else Inr (c, l))"

fun rebalance_loop :: "holding list \<Rightarrow> rat \<Rightarrow> commission_spec \<Rightarrow> rat \<Rightarrow> rat
    \<Rightarrow> error + (holding list \<times> rat)" where
  "rebalance_loop [] E cs mtv total_value = Inr ([], total_value)"
| "rebalance_loop (Group c ch # hs) E cs mtv total_value =
     (case rebalance_loop ch (E * weight c) cs mtv 0 of
        Inl e \<Rightarrow> Inl e
      | Inr (ch', v) \<Rightarrow>
          (case rebalance_loop hs E cs mtv (total_value + v) of
             Inl e \<Rightarrow> Inl e
           | Inr (hs', t) \<Rightarrow> Inr (Group (c\<lparr>value_fld := Some v\<rparr>) ch' # hs', t)))"
| "rebalance_loop (Leaf c l # hs) E cs mtv total_value =
     (case rebalance_leaf E cs mtv c l of
        Inl e \<Rightarrow> Inl e
      | Inr (c', l') \<Rightarrow>
          (case value_fld c' of
             None \<Rightarrow> Inl TypeError
           | Some v \<Rightarrow>
               (case rebalance_loop hs E cs mtv (total_value + v) of
                  Inl e \<Rightarrow> Inl e
                | Inr (hs', t) \<Rightarrow> Inr (Leaf c' l' # hs', t))))"

definition rebalance :: "holding list \<Rightarrow> rat \<Rightarrow> commission_spec \<Rightarrow> rat \<Rightarrow> error + (holding list \<times> rat)" where
  "rebalance hs E cs mtv = rebalance_loop hs E cs mtv 0"

fun calculate_total_commissions :: "holding list \<Rightarrow> rat" where
  "calculate_total_commissions [] = 0"
| "calculate_total_commissions (Group c ch # hs) =
     calculate_total_commissions ch + calculate_total_commissions hs"
| "calculate_total_commissions (Leaf c l # hs) = commission l + calculate_total_commissions hs"

subsection \<open>Free-cash distributor\<close>

definition limit_extra_shares_to_minimum :: "leaf_fields \<Rightarrow> int \<Rightarrow> rat \<Rightarrow> error + int" where
  "limit_extra_shares_to_minimum l extra_shares mtv =
     (case price l of
        None \<Rightarrow> Inl TypeError
      | Some p \<Rightarrow>
          (case dec_div mtv p of
             Inl e \<Rightarrow> Inl e
           | Inr q \<Rightarrow>
               (let min_trade_shares = \<lceil>q\<rceil>;
                    min_extra_shares = (if shares l > current_shares l
                       then min_trade_shares - (shares l - current_shares l)
                       else min_trade_shares)
                in Inr (min extra_shares (max 1 min_extra_shares)))))"

text \<open>
  The body of the loop of \<^verbatim>\<open>distribute_free_assets\<close> for an instrument: the new state of
  the instrument and the free assets left.
\<close>

definition distribute_leaf :: "rat \<Rightarrow> rat \<Rightarrow> commission_spec \<Rightarrow> rat \<Rightarrow> bool
    \<Rightarrow> common_fields \<Rightarrow> leaf_fields \<Rightarrow> error + ((common_fields \<times> leaf_fields) \<times> rat)" where
  "distribute_leaf E fa cs mtv underfunded_only c l =
     (let expected_value = E * expected_weight c in
      case (if \<not> underfunded_only then Inr True
            else (case value_fld c of None \<Rightarrow> Inl TypeError | Some v \<Rightarrow> Inr (v < expected_value))) of
        Inl e \<Rightarrow> Inl e
      | Inr False \<Rightarrow> Inr ((c, l), fa)
      | Inr True \<Rightarrow>
          (let previous_commission = commission l in
           case price l of
             None \<Rightarrow> Inl TypeError
           | Some p \<Rightarrow>
             (case dec_floordiv (fa + previous_commission) p of
                Inl e \<Rightarrow> Inl e
              | Inr n0 \<Rightarrow>
                (case limit_extra_shares_to_minimum l n0 mtv of
                   Inl e \<Rightarrow> Inl e
                 | Inr n1 \<Rightarrow>
                   (case (if n1 > 0
                          then (let commission' =
                                      CommissionSpec_calculate cs (abs (shares l + n1 - current_shares l)) p
                                in case dec_floordiv (fa + previous_commission - commission') p of
                                     Inl e \<Rightarrow> Inl e
                                   | Inr n2 \<Rightarrow> limit_extra_shares_to_minimum l n2 mtv)
                          else Inr n1) of
                      Inl e \<Rightarrow> Inl e
                    | Inr extra_shares \<Rightarrow>
                        if extra_shares > 0
                        then (let result_shares = shares l + extra_shares in
                              if \<not> (result_shares < current_shares l \<and> selling_restricted c = Some True
                                    \<or> result_shares > current_shares l \<and> buying_restricted c = Some True
                                    \<or> of_int (abs (result_shares - current_shares l)) * p < mtv)
                              then (case change c l p result_shares cs of
                                      (c', l') \<Rightarrow>
                                        Inr ((c', l'),
                                             fa - (of_int extra_shares * p
                                                     - (commission l' - previous_commission))))
                              else Inr ((c, l), fa))
                        else Inr ((c, l), fa))))))"

text \<open>
  The sort key \<^verbatim>\<open>difference_from_expected\<close>, and \<^verbatim>\<open>sorted(..., reverse=True)\<close>: a stable
  sort into descending order of the keys. The holdings are sorted with their positions in
  the list, so that the changed holdings can be put back where the source changes them in
  place.
\<close>

definition difference_from_expected :: "rat \<Rightarrow> holding \<Rightarrow> error + rat" where
  "difference_from_expected E h =
     (let expected_value = E * expected_weight (common h) in
      case value_fld (common h) of
        None \<Rightarrow> Inl TypeError
      | Some v \<Rightarrow> if expected_value = 0 then Inr (- v) else Inr ((expected_value - v) / expected_value))"

fun keyed :: "rat \<Rightarrow> nat \<Rightarrow> holding list \<Rightarrow> error + (rat \<times> nat \<times> holding) list" where
  "keyed E i [] = Inr []"
| "keyed E i (h # hs) =
     (case difference_from_expected E h of
        Inl e \<Rightarrow> Inl e
      | Inr k \<Rightarrow> (case keyed E (Suc i) hs of Inl e \<Rightarrow> Inl e | Inr ks \<Rightarrow> Inr ((k, i, h) # ks)))"

fun insert_descending :: "rat \<times> 'a \<Rightarrow> (rat \<times> 'a) list \<Rightarrow> (rat \<times> 'a) list" where
  "insert_descending x [] = [x]"
| "insert_descending x (y # ys) =
     (if fst y < fst x then x # y # ys else y # insert_descending x ys)"

definition sort_descending :: "(rat \<times> 'a) list \<Rightarrow> (rat \<times> 'a) list" where
  "sort_descending xs = foldl (\<lambda>acc x. insert_descending x acc) [] xs"

definition sorted_holdings :: "holding list \<Rightarrow> rat \<Rightarrow> error + (nat \<times> holding) list" where
  "sorted_holdings hs E =
     (case keyed E 0 hs of Inl e \<Rightarrow> Inl e | Inr ks \<Rightarrow> Inr (map snd (sort_descending ks)))"

definition write_back :: "(nat \<times> holding) list \<Rightarrow> holding list \<Rightarrow> holding list" where
  "write_back changed hs = fold (\<lambda>(i, h) acc. acc[i := h]) changed hs"

fun sum_values :: "holding list \<Rightarrow> error + rat" where
  "sum_values [] = Inr 0"
| "sum_values (h # hs) =
     (case value_fld (common h) of
        None \<Rightarrow> Inl TypeError
      | Some v \<Rightarrow> (case sum_values hs of Inl e \<Rightarrow> Inl e | Inr t \<Rightarrow> Inr (v + t)))"

lemma size_insert_descending:
  "size_list f (insert_descending x xs) = size_list f (x # xs)"
  by (induction xs) simp_all

lemma size_sort_descending_aux:
  "size_list f (foldl (\<lambda>acc x. insert_descending x acc) acc xs) = size_list f acc + size_list f xs"
  by (induction xs arbitrary: acc) (simp_all add: size_insert_descending)

lemma size_keyed:
  "keyed E i hs = Inr ks \<Longrightarrow> size_list (\<lambda>x. size (snd (snd x))) ks = size_list size hs"
  by (induction hs arbitrary: i ks) (auto split: sum.splits)

lemma size_sorted_holdings:
  "sorted_holdings hs E = Inr order \<Longrightarrow> size_list (\<lambda>x. size (snd x)) order = size_list size hs"
  by (auto simp: sorted_holdings_def sort_descending_def size_list_map comp_def
      size_sort_descending_aux size_keyed split: sum.splits)

function distribute_free_assets :: "holding list \<Rightarrow> rat \<Rightarrow> rat \<Rightarrow> commission_spec \<Rightarrow> rat \<Rightarrow> bool
      \<Rightarrow> error + (holding list \<times> rat)"
  and distribute_loop :: "(nat \<times> holding) list \<Rightarrow> rat \<Rightarrow> rat \<Rightarrow> commission_spec \<Rightarrow> rat \<Rightarrow> bool
      \<Rightarrow> error + ((nat \<times> holding) list \<times> rat)" where
  "distribute_free_assets hs E fa cs mtv underfunded_only =
     (case sorted_holdings hs E of
        Inl e \<Rightarrow> Inl e
      | Inr order \<Rightarrow>
          (case distribute_loop order E fa cs mtv underfunded_only of
             Inl e \<Rightarrow> Inl e
           | Inr (changed, fa') \<Rightarrow> Inr (write_back changed hs, fa')))"
| "distribute_loop [] E fa cs mtv underfunded_only = Inr ([], fa)"
| "distribute_loop ((i, Group c ch) # rest) E fa cs mtv underfunded_only =
     (if fa \<le> 0 then Inr ((i, Group c ch) # rest, fa)
      else (case distribute_free_assets ch (E * expected_weight c) fa cs mtv underfunded_only of
              Inl e \<Rightarrow> Inl e
            | Inr (ch', fa1) \<Rightarrow>
                (case sum_values ch' of
                   Inl e \<Rightarrow> Inl e
                 | Inr v \<Rightarrow>
                     (case distribute_loop rest E fa1 cs mtv underfunded_only of
                        Inl e \<Rightarrow> Inl e
                      | Inr (rest', fa2) \<Rightarrow>
                          Inr ((i, Group (c\<lparr>value_fld := Some v\<rparr>) ch') # rest', fa2)))))"
| "distribute_loop ((i, Leaf c l) # rest) E fa cs mtv underfunded_only =
     (if fa \<le> 0 then Inr ((i, Leaf c l) # rest, fa)
      else (case distribute_leaf E fa cs mtv underfunded_only c l of
              Inl e \<Rightarrow> Inl e
            | Inr ((c', l'), fa1) \<Rightarrow>
                (case distribute_loop rest E fa1 cs mtv underfunded_only of
                   Inl e \<Rightarrow> Inl e
                 | Inr (rest', fa2) \<Rightarrow> Inr ((i, Leaf c' l') # rest', fa2))))"
  by pat_completeness auto
termination
  by (relation "measure (\<lambda>x. case x of
          Inl (hs, E, fa, cs, mtv, u) \<Rightarrow> 2 * size_list size hs + 1
        | Inr (xs, E, fa, cs, mtv, u) \<Rightarrow> 2 * size_list (\<lambda>x. size (snd x)) xs)")
    (auto dest: size_sorted_holdings)

declare distribute_free_assets.simps [simp del]

subsection \<open>The calculation\<close>

text \<open>
  The validation of the weights and the collection of the tickers (\<^verbatim>\<open>process\<close> inside
  \<^verbatim>\<open>calculate\<close>).
\<close>

fun process :: "holding list \<Rightarrow> error + string list"
  and process_each :: "holding list \<Rightarrow> error + string list" where
  "process hs =
     (if hs \<noteq> [] \<and> sum_list (map (\<lambda>h. expected_weight (common h)) hs) \<noteq> 1 then Inl Error
      else process_each hs)"
| "process_each [] = Inr []"
| "process_each (Group c ch # hs) =
     (case process ch of
        Inl e \<Rightarrow> Inl e
      | Inr ts \<Rightarrow> (case process_each hs of Inl e \<Rightarrow> Inl e | Inr ts' \<Rightarrow> Inr (ts @ ts')))"
| "process_each (Leaf c l # hs) =
     (case process_each hs of Inl e \<Rightarrow> Inl e | Inr ts' \<Rightarrow> Inr (ticker l # ts'))"

text \<open>
  The loop \<^verbatim>\<open>while free_assets_to_distribute > 0\<close> of \<^verbatim>\<open>calculate\<close>, for one value of
  \<^verbatim>\<open>underfunded_only\<close>. Nothing bounds the number of its rounds, so it is a partial
  function: \<open>None\<close> when it does not return.
\<close>

partial_function (option) distribute_while :: "holding list \<Rightarrow> rat \<Rightarrow> rat \<Rightarrow> commission_spec \<Rightarrow> rat
    \<Rightarrow> bool \<Rightarrow> (error + (holding list \<times> rat)) option" where
  "distribute_while hs rebalanced_value fa cs mtv underfunded_only =
     (if fa > 0
      then (case distribute_free_assets hs rebalanced_value fa cs mtv underfunded_only of
              Inl e \<Rightarrow> Some (Inl e)
            | Inr (hs', fa') \<Rightarrow>
                if fa' = fa then Some (Inr (hs', fa))
                else distribute_while hs' rebalanced_value fa' cs mtv underfunded_only)
      else Some (Inr (hs, fa)))"

declare distribute_while.simps [code]

text \<open>
  The weight correction of \<^verbatim>\<open>calculate\<close>: the restrictions, then the buying pass, then
  the selling pass on its result.
\<close>

definition correct_weights :: "holding list \<Rightarrow> rat \<Rightarrow> error + holding list" where
  "correct_weights hs rebalance_to =
     (case calculate_restrictions hs of
        (hs1, mn, mx) \<Rightarrow>
          (case correct_weights_for_buying_restriction hs1 rebalance_to of
             Inl e \<Rightarrow> Inl e
           | Inr (hs2, succeeded) \<Rightarrow>
               (case correct_weights_for_selling_restriction hs2 rebalance_to of
                  Inl e \<Rightarrow> Inl e
                | Inr (hs3, succeeded') \<Rightarrow> Inr hs3)))"

text \<open>
  \<^verbatim>\<open>calculate\<close>. The argument \<open>prices\<close> is the dictionary \<^verbatim>\<open>get_prices\<close> returns. The
  result has the holdings as the run leaves them, and the three values the source returns.
\<close>

definition calculate :: "portfolio \<Rightarrow> bool \<Rightarrow> (string \<Rightarrow> rat option)
    \<Rightarrow> (error + (holding list \<times> rat \<times> rat \<times> rat)) option" where
  "calculate p fake_prices real_prices =
     (case process (portfolio_holdings p) of
        Inl e \<Rightarrow> Some (Inl e)
      | Inr tickers \<Rightarrow>
        (let prices = (if fake_prices then (\<lambda>t. if t \<in> set tickers then Some 1 else None)
                       else real_prices)
         in case calculate_current_value (portfolio_holdings p) prices of
           Inl e \<Rightarrow> Some (Inl e)
         | Inr (hs1, current_value') \<Rightarrow>
           (let total_assets = current_value' + free_assets p;
                rebalance_to = total_assets - min_free_assets p
            in case (if \<not> fake_prices then correct_weights hs1 rebalance_to else Inr hs1) of
              Inl e \<Rightarrow> Some (Inl e)
            | Inr hs2 \<Rightarrow>
              (case rebalance hs2 rebalance_to (commission_spec p) (min_trade_volume p) of
                 Inl e \<Rightarrow> Some (Inl e)
               | Inr (hs3, rebalanced_value) \<Rightarrow>
                 (let commissions = calculate_total_commissions hs3;
                      free_assets' = total_assets - rebalanced_value - commissions;
                      free_assets_to_distribute = free_assets' - min_free_assets p
                  in case distribute_while hs3 rebalanced_value free_assets_to_distribute
                            (commission_spec p) (min_trade_volume p) True of
                       None \<Rightarrow> None
                     | Some (Inl e) \<Rightarrow> Some (Inl e)
                     | Some (Inr (hs4, fa1)) \<Rightarrow>
                       (case distribute_while hs4 rebalanced_value fa1
                               (commission_spec p) (min_trade_volume p) False of
                          None \<Rightarrow> None
                        | Some (Inl e) \<Rightarrow> Some (Inl e)
                        | Some (Inr (hs5, fa2)) \<Rightarrow>
                          (case sum_values hs5 of
                             Inl e \<Rightarrow> Some (Inl e)
                           | Inr rebalanced_value' \<Rightarrow>
                               Some (Inr (hs5, rebalanced_value', fa2 + min_free_assets p,
                                          calculate_total_commissions hs5)))))))))"

text \<open>The instruments of a tree, from left to right.\<close>

fun leaves :: "holding list \<Rightarrow> (common_fields \<times> leaf_fields) list" where
  "leaves [] = []"
| "leaves (Leaf c l # hs) = (c, l) # leaves hs"
| "leaves (Group c ch # hs) = leaves ch @ leaves hs"

text \<open>
  The three conditions under which the rebalancer and the distributor do not commit a
  trade to \<open>n\<close> shares: selling restricted, buying restricted, below the minimum trade
  volume.
\<close>

definition trade_blocked :: "rat \<Rightarrow> common_fields \<Rightarrow> leaf_fields \<Rightarrow> rat \<Rightarrow> int \<Rightarrow> bool" where
  "trade_blocked mtv c l p n =
     (n < current_shares l \<and> selling_restricted c = Some True
      \<or> n > current_shares l \<and> buying_restricted c = Some True
      \<or> of_int (abs (n - current_shares l)) * p < mtv)"

text \<open>
  The share count the rebalancer wants for an instrument at price \<open>p\<close>: the desired value
  over the price, truncated; when that differs from the current count, the desired value
  less the commission for the difference, over the price, truncated.
\<close>

definition rebalanced_shares :: "rat \<Rightarrow> commission_spec \<Rightarrow> common_fields \<Rightarrow> leaf_fields \<Rightarrow> rat \<Rightarrow> int" where
  "rebalanced_shares E cs c l p =
     (let desired_value = E * weight c;
          n = dec_truncate (desired_value / p)
      in if n \<noteq> current_shares l
         then dec_truncate ((desired_value
                 - CommissionSpec_calculate cs (abs (n - current_shares l)) p) / p)
         else n)"

text \<open>
  The number of extra shares the distributor wants for an instrument at price \<open>p\<close> with
  \<open>fa\<close> of free assets: the cap is the minimum trade volume in shares, less the shares
  already bought in this run, and at least 1.
\<close>

definition extra_shares_cap :: "rat \<Rightarrow> leaf_fields \<Rightarrow> rat \<Rightarrow> int" where
  "extra_shares_cap mtv l p =
     max 1 (\<lceil>mtv / p\<rceil> - (if shares l > current_shares l then shares l - current_shares l else 0))"

definition distributed_extra_shares :: "rat \<Rightarrow> commission_spec \<Rightarrow> rat \<Rightarrow> leaf_fields \<Rightarrow> rat \<Rightarrow> int" where
  "distributed_extra_shares fa cs mtv l p =
     (let n1 = min (dec_truncate ((fa + commission l) / p)) (extra_shares_cap mtv l p)
      in if n1 > 0
         then min (dec_truncate ((fa + commission l
                     - CommissionSpec_calculate cs (abs (shares l + n1 - current_shares l)) p) / p))
                  (extra_shares_cap mtv l p)
         else n1)"

text \<open>
  What a pass may do to an instrument under its restrictions: the restrictions and the
  snapshot of the shares stay, and the share count either stays or respects the
  restrictions.
\<close>

definition restriction_respected :: "common_fields \<times> leaf_fields \<Rightarrow> bool" where
  "restriction_respected x =
     (case x of (c, l) \<Rightarrow>
        (selling_restricted c = Some True \<longrightarrow> current_shares l \<le> shares l)
        \<and> (buying_restricted c = Some True \<longrightarrow> shares l \<le> current_shares l))"

definition restriction_kept :: "common_fields \<times> leaf_fields \<Rightarrow> common_fields \<times> leaf_fields \<Rightarrow> bool" where
  "restriction_kept x y =
     (case (x, y) of ((c, l), (c', l')) \<Rightarrow>
        selling_restricted c' = selling_restricted c
        \<and> buying_restricted c' = buying_restricted c
        \<and> current_shares l' = current_shares l
        \<and> (shares l' = shares l \<or> restriction_respected (c', l')))"

definition only_bought :: "common_fields \<times> leaf_fields \<Rightarrow> common_fields \<times> leaf_fields \<Rightarrow> bool" where
  "only_bought x y = (y = x \<or> shares (snd x) + 1 \<le> shares (snd y))"

text \<open>
  An example: a group of an instrument that may not be sold (50 shares worth 1000), an
  instrument that may not be bought and an unrestricted one, after the valuation pass.
\<close>

definition valued_leaf :: "string \<Rightarrow> rat \<Rightarrow> int \<Rightarrow> rat \<Rightarrow> bool option \<Rightarrow> bool option \<Rightarrow> holding" where
  "valued_leaf t percents n p sr br =
     Leaf ((new_common t percents)
             \<lparr>current_value := Some (of_int n * p), value_fld := Some (of_int n * p),
              selling_restricted := sr, buying_restricted := br\<rparr>)
          \<lparr>ticker = t, current_shares = n, shares = n, commission = 0, price = Some p\<rparr>"









text \<open>
  The order of the two correction passes as the specification states it (selling first),
  to compare \<open>correct_weights\<close> with.
\<close>

definition correct_weights_selling_first :: "holding list \<Rightarrow> rat \<Rightarrow> error + holding list" where
  "correct_weights_selling_first hs rebalance_to =
     (case calculate_restrictions hs of
        (hs1, mn, mx) \<Rightarrow>
          (case correct_weights_for_selling_restriction hs1 rebalance_to of
             Inl e \<Rightarrow> Inl e
           | Inr (hs2, succeeded) \<Rightarrow>
               (case correct_weights_for_buying_restriction hs2 rebalance_to of
                  Inl e \<Rightarrow> Inl e
                | Inr (hs3, succeeded') \<Rightarrow> Inr hs3)))"

text \<open>
  Examples of portfolios: instruments as constructed (ticker, weight in percent, shares,
  restrictions), a commission schedule with a flat fee only, and the weights and share
  counts of a tree.
\<close>

definition fresh_leaf :: "string \<Rightarrow> rat \<Rightarrow> int \<Rightarrow> bool option \<Rightarrow> bool option \<Rightarrow> holding" where
  "fresh_leaf t percents n sr br =
     Leaf ((new_common t percents)\<lparr>selling_restricted := sr, buying_restricted := br\<rparr>)
          \<lparr>ticker = t, current_shares = n, shares = n, commission = 0, price = None\<rparr>"

definition flat_fee :: "rat \<Rightarrow> commission_spec" where
  "flat_fee m = \<lparr>minimum = m, percent = None, per_share = None, maximum_percent = None\<rparr>"

definition weights :: "holding list \<Rightarrow> rat list" where
  "weights hs = map (\<lambda>h. weight (common h)) hs"

fun leaf_shares :: "holding list \<Rightarrow> int list" where
  "leaf_shares [] = []"
| "leaf_shares (Leaf c l # hs) = shares l # leaf_shares hs"
| "leaf_shares (Group c ch # hs) = leaf_shares ch @ leaf_shares hs"

definition order_portfolio :: portfolio where
  "order_portfolio =
     \<lparr>portfolio_name = ''P'', currency = ''usd'', commission_spec = flat_fee 0,
      portfolio_holdings =
        [fresh_leaf ''A'' 50 55 (Some True) None, fresh_leaf ''B'' 25 10 None (Some True),
         fresh_leaf ''C'' 25 35 None None],
      free_assets = 0, min_free_assets = 0, min_trade_volume = 0, free_commissions = None\<rparr>"

definition unit_prices :: "string \<Rightarrow> rat option" where
  "unit_prices = (\<lambda>t. Some 1)"

definition order_example :: "holding list" where
  "order_example =
     [valued_leaf ''A'' 50 55 1 (Some True) None, valued_leaf ''B'' 25 10 1 None (Some True),
      valued_leaf ''C'' 25 35 1 None None]"

definition enforcement_example :: "holding list" where
  "enforcement_example =
     [valued_leaf ''A'' (129 / 2) 60 1 None None, valued_leaf ''B'' 30 10 1 None (Some True),
      valued_leaf ''C'' (11 / 2) 30 1 (Some True) None]"

definition leak_portfolio :: portfolio where
  "leak_portfolio =
     \<lparr>portfolio_name = ''P'', currency = ''usd'', commission_spec = flat_fee 2,
      portfolio_holdings = [fresh_leaf ''A'' 50 0 None None, fresh_leaf ''B'' 50 5 None None],
      free_assets = 50, min_free_assets = 0, min_trade_volume = 0, free_commissions = None\<rparr>"

definition leak_prices :: "string \<Rightarrow> rat option" where
  "leak_prices = [''A'' \<mapsto> 30, ''B'' \<mapsto> 10]"


definition scenario_leaf :: leaf_fields where
  "scenario_leaf = \<lparr>ticker = ''A'', current_shares = 100, shares = 100, commission = 0, price = Some 10\<rparr>"

definition bought_common :: common_fields where
  "bought_common = (new_common ''B'' 50)\<lparr>current_value := Some 50, value_fld := Some 50\<rparr>"

definition bought_leaf :: leaf_fields where
  "bought_leaf = \<lparr>ticker = ''B'', current_shares = 5, shares = 5, commission = 0, price = Some 10\<rparr>"

definition rebalanced_example :: "holding list" where
  "rebalanced_example =
     [Leaf ((new_common ''A'' 50)\<lparr>current_value := Some 0, value_fld := Some 30\<rparr>)
        \<lparr>ticker = ''A'', current_shares = 0, shares = 1, commission = 2, price = Some 30\<rparr>,
      Leaf bought_common bought_leaf]"

section \<open>Properties\<close>

subsection \<open>Commission model\<close>

text \<open>
  C5 (as the claim states it, refuted): the claim says that for every commission schedule
  the fee for a trade of zero shares is exactly the configured minimum. With the minimum
  \<open>-1\<close> and no other component the fee for zero shares is \<open>0\<close>: the accumulated
  components are \<open>0\<close> and \<^verbatim>\<open>max(minimum, commissions)\<close> returns the larger.
\<close>

theorem commission_zero_shares_counterexample:
  "CommissionSpec_calculate
     \<lparr>minimum = -1, percent = None, per_share = None, maximum_percent = None\<rparr> 0 10 = 0
   \<and> CommissionSpec_calculate
     \<lparr>minimum = -1, percent = None, per_share = None, maximum_percent = None\<rparr> 0 10
       \<noteq> minimum \<lparr>minimum = -1, percent = None, per_share = None, maximum_percent = None\<rparr>"
  by (simp add: CommissionSpec_calculate_def)

text \<open>
  C5 (amended): for every commission schedule, share count and price, the fee is the
  configured minimum floored over the sum of the percentage-of-notional and per-share
  components (an absent component counts as zero), that sum first capped by the percentage
  cap of the notional when one is configured. The fee is at least the minimum, and at least
  zero when the minimum is not negative. For zero shares the fee is the larger of the
  minimum and zero, which is the minimum exactly when the minimum is not negative.
\<close>

theorem commission_model:
  "CommissionSpec_calculate cs n pr =
     max (minimum cs)
       (let components = (case percent cs of None \<Rightarrow> 0 | Some p \<Rightarrow> of_int n * pr * p / 100)
                  + (case per_share cs of None \<Rightarrow> 0 | Some ps \<Rightarrow> of_int n * ps)
        in case maximum_percent cs of None \<Rightarrow> components
           | Some mp \<Rightarrow> min components (of_int n * pr * mp / 100))
   \<and> minimum cs \<le> CommissionSpec_calculate cs n pr
   \<and> (0 \<le> minimum cs \<longrightarrow> 0 \<le> CommissionSpec_calculate cs n pr)
   \<and> CommissionSpec_calculate cs 0 pr = max (minimum cs) 0
   \<and> (CommissionSpec_calculate cs 0 pr = minimum cs \<longleftrightarrow> 0 \<le> minimum cs)"
  by (auto simp: CommissionSpec_calculate_def Let_def split: option.splits)

theorem commission_model_witness:
  "0 \<le> minimum \<lparr>minimum = 1, percent = Some 2, per_share = Some 3, maximum_percent = Some 5\<rparr>
   \<and> CommissionSpec_calculate
        \<lparr>minimum = 1, percent = Some 2, per_share = Some 3, maximum_percent = Some 5\<rparr> 4 10 = 2
   \<and> CommissionSpec_calculate
        \<lparr>minimum = 1, percent = Some 2, per_share = Some 3, maximum_percent = Some 5\<rparr> 0 10 = 1"
  using commission_model
    [of "\<lparr>minimum = 1, percent = Some 2, per_share = Some 3, maximum_percent = Some 5\<rparr>" 4 10]
    commission_model
    [of "\<lparr>minimum = 1, percent = Some 2, per_share = Some 3, maximum_percent = Some 5\<rparr>" 0 10]
  by simp

subsection \<open>Restriction propagation\<close>

lemma present_append: "present (xs @ ys) = present xs @ present ys"
  by (induction xs rule: present.induct) simp_all

lemma length_present: "length (present ms) \<le> length ms"
  by (induction ms rule: present.induct) simp_all

lemma length_present_eq: "length (present ms) = length ms \<longleftrightarrow> list_all (\<lambda>m. m \<noteq> None) ms"
proof (induction ms rule: present.induct)
  case 1
  show ?case by simp
next
  case (2 ms)
  have "length (present ms) \<le> length ms" by (rule length_present)
  then show ?case by simp
next
  case (3 m ms)
  then show ?case by simp
qed

lemma add_minimum_value_present:
  "add_minimum_value t m =
     (case t of None \<Rightarrow> m | Some v \<Rightarrow> Some (v + sum_list (present [m])))"
  by (cases m; cases t) simp_all

lemma add_minimum_value_fold:
  "(case add_minimum_value t m of None \<Rightarrow> sum_present ms
      | Some v \<Rightarrow> Some (v + sum_list (present ms)))
   = (case t of None \<Rightarrow> sum_present (m # ms) | Some v \<Rightarrow> Some (v + sum_list (present (m # ms))))"
  by (cases m; cases t) (simp_all add: sum_present_def)

lemma append_maximum_value_present:
  "append_maximum_value maxs m @ present ms = maxs @ present (m # ms)"
  by (cases m) simp_all

lemma restrictions_loop_result:
  "list_all restriction_values_unset hs \<Longrightarrow>
     (case restrictions_loop hs tmin maxs of (hs', tmin', maxs') \<Rightarrow>
        list_all restrictions_propagated hs'
        \<and> length hs' = length hs
        \<and> tmin' = (case tmin of
              None \<Rightarrow> sum_present (map (\<lambda>h. minimum_value (common h)) hs')
            | Some v \<Rightarrow> Some (v + sum_list (present (map (\<lambda>h. minimum_value (common h)) hs'))))
        \<and> maxs' = maxs @ present (map (\<lambda>h. maximum_value (common h)) hs'))"
  and calculate_restrictions_result:
  "list_all restriction_values_unset hs \<Longrightarrow>
     (case calculate_restrictions hs of (hs', mn, mx) \<Rightarrow>
        list_all restrictions_propagated hs'
        \<and> mn = sum_present (map (\<lambda>h. minimum_value (common h)) hs')
        \<and> mx = sum_if_all_defined (map (\<lambda>h. maximum_value (common h)) hs'))"
proof (induction hs tmin maxs and hs rule: restrictions_loop_calculate_restrictions.induct)
  case (1 tmin maxs)
  show ?case by (simp add: sum_present_def split: option.splits)
next
  case (2 c ch hs tmin maxs)
  obtain ch' mn mx where ch: "calculate_restrictions ch = (ch', mn, mx)"
    by (cases "calculate_restrictions ch") auto
  obtain hs' tmin' maxs' where hs:
    "restrictions_loop hs (add_minimum_value tmin mn) (append_maximum_value maxs mx) = (hs', tmin', maxs')"
    by (cases "restrictions_loop hs (add_minimum_value tmin mn) (append_maximum_value maxs mx)") auto
  from 2(3) have u: "list_all restriction_values_unset ch" "list_all restriction_values_unset hs"
    by simp_all
  from 2(1)[OF u(1)] have g: "list_all restrictions_propagated ch'"
    "sum_present (map (\<lambda>h. minimum_value (common h)) ch') = mn"
    "sum_if_all_defined (map (\<lambda>h. maximum_value (common h)) ch') = mx"
    unfolding ch by simp_all
  from 2(2)[OF ch[symmetric] refl u(2)]
  have r: "list_all restrictions_propagated hs'" "length hs' = length hs"
    "tmin' = (case add_minimum_value tmin mn of
              None \<Rightarrow> sum_present (map (\<lambda>h. minimum_value (common h)) hs')
            | Some v \<Rightarrow> Some (v + sum_list (present (map (\<lambda>h. minimum_value (common h)) hs'))))"
    "maxs' = append_maximum_value maxs mx @ present (map (\<lambda>h. maximum_value (common h)) hs')"
    unfolding hs by simp_all
  have eq: "restrictions_loop (Group c ch # hs) tmin maxs
      = (Group (c\<lparr>minimum_value := mn, maximum_value := mx\<rparr>) ch' # hs', tmin', maxs')"
    using ch hs by (simp del: calculate_restrictions.simps)
  show ?case
    unfolding eq using g r(1,2)
    by (simp add: r(3,4) add_minimum_value_fold append_maximum_value_present cong: option.case_cong)
next
  case (3 c l hs tmin maxs)
  define c' where "c' = restrict_leaf c"
  obtain hs' tmin' maxs' where hs:
    "restrictions_loop hs (add_minimum_value tmin (minimum_value c'))
       (append_maximum_value maxs (maximum_value c')) = (hs', tmin', maxs')"
    by (cases "restrictions_loop hs (add_minimum_value tmin (minimum_value c'))
       (append_maximum_value maxs (maximum_value c'))") auto
  from 3(2) have u: "minimum_value c = None" "maximum_value c = None"
    "list_all restriction_values_unset hs" by simp_all
  have p: "restrictions_propagated (Leaf c' l)"
    using u(1,2) by (simp add: c'_def restrict_leaf_def Let_def)
  from 3(1)[OF c'_def u(3)]
  have r: "list_all restrictions_propagated hs'" "length hs' = length hs"
    "tmin' = (case add_minimum_value tmin (minimum_value c') of
              None \<Rightarrow> sum_present (map (\<lambda>h. minimum_value (common h)) hs')
            | Some v \<Rightarrow> Some (v + sum_list (present (map (\<lambda>h. minimum_value (common h)) hs'))))"
    "maxs' = append_maximum_value maxs (maximum_value c') @ present (map (\<lambda>h. maximum_value (common h)) hs')"
    unfolding hs by simp_all
  have eq: "restrictions_loop (Leaf c l # hs) tmin maxs = (Leaf c' l # hs', tmin', maxs')"
    using hs by (simp add: c'_def Let_def)
  show ?case
    unfolding eq using p r(1,2)
    by (simp add: r(3,4) add_minimum_value_fold append_maximum_value_present cong: option.case_cong)
next
  case (4 hs)
  obtain hs' tmin' maxs' where hs: "restrictions_loop hs None [] = (hs', tmin', maxs')"
    by (cases "restrictions_loop hs None []") auto
  from 4(1)[OF 4(2)]
  have r: "list_all restrictions_propagated hs'" "length hs' = length hs"
    "tmin' = sum_present (map (\<lambda>h. minimum_value (common h)) hs')"
    "maxs' = present (map (\<lambda>h. maximum_value (common h)) hs')"
    unfolding hs by simp_all
  have "length maxs' = length hs \<longleftrightarrow> list_all (\<lambda>m. m \<noteq> None) (map (\<lambda>h. maximum_value (common h)) hs')"
    using length_present_eq[of "map (\<lambda>h. maximum_value (common h)) hs'"] r(2,4) by simp
  then show ?case
    using r hs by (simp add: sum_if_all_defined_def)
qed



subsection \<open>Weight corrector\<close>


























subsection \<open>The calculation\<close>

lemma calculate_passes:
  assumes "calculate p False prices = Some (Inr (hs', v, f, c))"
  shows "\<exists>hs1 cv hs2 mn mx hs3 b hs4 s hs5 rv hs6 fa1.
     calculate_current_value (portfolio_holdings p) prices = Inr (hs1, cv)
     \<and> calculate_restrictions hs1 = (hs2, mn, mx)
     \<and> correct_weights_for_buying_restriction hs2 (cv + free_assets p - min_free_assets p) = Inr (hs3, b)
     \<and> correct_weights_for_selling_restriction hs3 (cv + free_assets p - min_free_assets p) = Inr (hs4, s)
     \<and> rebalance hs4 (cv + free_assets p - min_free_assets p) (commission_spec p) (min_trade_volume p)
          = Inr (hs5, rv)
     \<and> distribute_while hs5 rv
          (cv + free_assets p - rv - calculate_total_commissions hs5 - min_free_assets p)
          (commission_spec p) (min_trade_volume p) True = Some (Inr (hs6, fa1))
     \<and> distribute_while hs6 rv fa1 (commission_spec p) (min_trade_volume p) False
          = Some (Inr (hs', f - min_free_assets p))"
  using assms
  by (auto simp: calculate_def correct_weights_def Let_def
      split: sum.splits option.splits prod.splits if_splits)

text \<open>
  C1 (the code at the failing input): two instruments of weight 50 percent each, A with no
  shares at price 30 and B with 5 shares at price 10, free assets 50, a flat fee of 2 per
  traded instrument. The total assets at the start are 100. The run returns a rebalanced
  value of 100, free assets 0 and commissions 4, which add up to 104: the distribution
  pass bought two shares of B, and on the first of them, where the fee of B went from 0
  to 2, it added the fee to the free assets instead of taking it off.
\<close>

theorem conservation_failing_input:
  "(case calculate leak_portfolio False leak_prices of
      Some (Inr (hs, v, f, c)) \<Rightarrow> (v, f, c) = (100, 0, 4) \<and> leaf_shares hs = [1, 7]
    | _ \<Rightarrow> False)
   \<and> (case calculate_current_value (portfolio_holdings leak_portfolio) leak_prices of
        Inr (hs, cv) \<Rightarrow> cv + free_assets leak_portfolio = 100
      | _ \<Rightarrow> False)"
  by code_simp

text \<open>
  C2 (as the claim states it, refuted): A (50 percent, 55 shares, not to be sold), B (25
  percent, 10 shares, not to be bought) and C (25 percent, 35 shares), all at price 1 and
  with no free assets. The weights the calculation hands to the rebalancer are 3/5, 1/4
  and 3/10: those of the buying pass followed by the selling pass. With the selling pass
  first they would be 17/29, 9/40 and 153/580. The run ends with 60 shares of A and 30 of
  C, which the weights 17/29 and 153/580 would not give.
\<close>

theorem pass_order_counterexample:
  "calculate_current_value (portfolio_holdings order_portfolio) unit_prices = Inr (order_example, 100)
   \<and> map_sum id weights (correct_weights order_example 100) = Inr [3/5, 1/4, 3/10]
   \<and> map_sum id weights (correct_weights_selling_first order_example 100) = Inr [17/29, 9/40, 153/580]
   \<and> (case calculate order_portfolio False unit_prices of
        Some (Inr (hs, v, f, c)) \<Rightarrow> weights hs = [3/5, 1/4, 3/10] \<and> leaf_shares hs = [60, 10, 30]
      | _ \<Rightarrow> False)"
  by code_simp

text \<open>
  C2 (amended): in every run of \<open>calculate\<close> with real prices that returns, the passes
  have run in the sequence valuation, restrictions, buying correction, selling correction,
  rebalance, free-cash distribution (first for the underfunded holdings only, then for
  all): the selling correction works on the weights the buying correction has left, and
  the rebalancer on the weights the selling correction has left.
\<close>

theorem pass_order:
  "calculate p False prices = Some (Inr (hs', v, f, c)) \<Longrightarrow>
   \<exists>hs1 cv hs2 mn mx hs3 b hs4 s hs5 rv hs6 fa1.
     calculate_current_value (portfolio_holdings p) prices = Inr (hs1, cv)
     \<and> calculate_restrictions hs1 = (hs2, mn, mx)
     \<and> correct_weights_for_buying_restriction hs2 (cv + free_assets p - min_free_assets p) = Inr (hs3, b)
     \<and> correct_weights_for_selling_restriction hs3 (cv + free_assets p - min_free_assets p) = Inr (hs4, s)
     \<and> rebalance hs4 (cv + free_assets p - min_free_assets p) (commission_spec p) (min_trade_volume p)
          = Inr (hs5, rv)
     \<and> distribute_while hs5 rv
          (cv + free_assets p - rv - calculate_total_commissions hs5 - min_free_assets p)
          (commission_spec p) (min_trade_volume p) True = Some (Inr (hs6, fa1))
     \<and> distribute_while hs6 rv fa1 (commission_spec p) (min_trade_volume p) False
          = Some (Inr (hs', f - min_free_assets p))"
  by (rule calculate_passes)

theorem pass_order_witness:
  "(\<exists>hs' v f c. calculate order_portfolio False unit_prices = Some (Inr (hs', v, f, c))
     \<and> leaf_shares hs' = [60, 10, 30]
     \<and> (\<exists>hs1 cv hs2 mn mx hs3 b hs4 s hs5 rv hs6 fa1.
       calculate_current_value (portfolio_holdings order_portfolio) unit_prices = Inr (hs1, cv)
       \<and> calculate_restrictions hs1 = (hs2, mn, mx)
       \<and> correct_weights_for_buying_restriction hs2
            (cv + free_assets order_portfolio - min_free_assets order_portfolio) = Inr (hs3, b)
       \<and> correct_weights_for_selling_restriction hs3
            (cv + free_assets order_portfolio - min_free_assets order_portfolio) = Inr (hs4, s)
       \<and> rebalance hs4 (cv + free_assets order_portfolio - min_free_assets order_portfolio)
            (commission_spec order_portfolio) (min_trade_volume order_portfolio) = Inr (hs5, rv)
       \<and> distribute_while hs5 rv
            (cv + free_assets order_portfolio - rv - calculate_total_commissions hs5
               - min_free_assets order_portfolio)
            (commission_spec order_portfolio) (min_trade_volume order_portfolio) True
            = Some (Inr (hs6, fa1))
       \<and> distribute_while hs6 rv fa1 (commission_spec order_portfolio)
            (min_trade_volume order_portfolio) False
            = Some (Inr (hs', f - min_free_assets order_portfolio))))"
proof -
  have "case calculate order_portfolio False unit_prices of
      Some (Inr (hs, v, f, c)) \<Rightarrow> leaf_shares hs = [60, 10, 30] | _ \<Rightarrow> False"
    by code_simp
  then obtain hs' v f c where
    r: "calculate order_portfolio False unit_prices = Some (Inr (hs', v, f, c))"
      "leaf_shares hs' = [60, 10, 30]"
    by (auto split: option.splits sum.splits)
  from pass_order[OF r(1)] r show ?thesis by blast
qed

subsection \<open>Instrument by instrument\<close>

lemma leaves_Cons: "leaves (h # hs) = leaves [h] @ leaves hs"
  by (cases h) simp_all

lemma leaves_related:
  "list_all2 (\<lambda>h h'. list_all2 R (leaves [h]) (leaves [h'])) hs hs'
   \<Longrightarrow> list_all2 R (leaves hs) (leaves hs')"
proof (induction hs hs' rule: list_all2_induct)
  case Nil
  show ?case by simp
next
  case (Cons h hs h' hs')
  then show ?case
    using leaves_Cons[of h hs] leaves_Cons[of h' hs'] by (simp add: list_all2_appendI)
qed

lemma rebalance_loop_leaves:
  assumes leaf: "\<And>E c l c' l'. rebalance_leaf E cs mtv c l = Inr (c', l') \<Longrightarrow> R (c, l) (c', l')"
  shows "rebalance_loop hs E cs mtv t = Inr (hs', t') \<Longrightarrow> list_all2 R (leaves hs) (leaves hs')"
  using leaf
proof (induction hs E cs mtv t arbitrary: hs' t' rule: rebalance_loop.induct)
  case (1 E cs mtv t)
  then show ?case by simp
next
  case (2 c ch hs E cs mtv t)
  note lf = "2.prems"(2)
  from "2.prems"(1) obtain ch' v hs1 where
    a: "rebalance_loop ch (E * weight c) cs mtv 0 = Inr (ch', v)" and
    b: "rebalance_loop hs E cs mtv (t + v) = Inr (hs1, t')" and
    e: "hs' = Group (c\<lparr>value_fld := Some v\<rparr>) ch' # hs1"
    by (auto split: sum.splits)
  from "2.IH"(1)[OF a lf] "2.IH"(2)[OF a refl b lf] e
  show ?case by (simp add: list_all2_appendI)
next
  case (3 c l hs E cs mtv t)
  note lf = "3.prems"(2)
  from "3.prems"(1) obtain c' l' v hs1 where
    a: "rebalance_leaf E cs mtv c l = Inr (c', l')" and
    v: "value_fld c' = Some v" and
    b: "rebalance_loop hs E cs mtv (t + v) = Inr (hs1, t')" and
    e: "hs' = Leaf c' l' # hs1"
    by (auto split: sum.splits option.splits)
  from "3.IH"[OF a refl v b lf] lf[OF a] e
  show ?case by simp
qed

lemma keyed_positions:
  "keyed E i hs = Inr ks \<Longrightarrow> map snd ks = zip [i..<i + length hs] hs"
proof (induction hs arbitrary: i ks)
  case Nil
  then show ?case by simp
next
  case (Cons h hs)
  from Cons.prems obtain k ks' where
    a: "keyed E (Suc i) hs = Inr ks'" and e: "ks = (k, i, h) # ks'"
    by (auto split: sum.splits)
  from Cons.IH[OF a] e show ?case by (simp add: upt_conv_Cons del: upt_Suc)
qed

lemma set_insert_descending: "set (insert_descending x xs) = insert x (set xs)"
  by (induction xs) auto

lemma set_sort_descending_aux:
  "set (foldl (\<lambda>acc x. insert_descending x acc) acc xs) = set acc \<union> set xs"
  by (induction xs arbitrary: acc) (auto simp: set_insert_descending)

lemma sorted_holdings_positions:
  assumes "sorted_holdings hs E = Inr order" and "(i, h) \<in> set order"
  shows "i < length hs \<and> hs ! i = h"
proof -
  from assms(1) obtain ks where ks: "keyed E 0 hs = Inr ks" and o: "order = map snd (sort_descending ks)"
    by (auto simp: sorted_holdings_def split: sum.splits)
  have "set order = set (map snd ks)"
    by (simp add: o sort_descending_def set_sort_descending_aux)
  with assms(2) keyed_positions[OF ks] have "(i, h) \<in> set (zip [0..<length hs] hs)" by simp
  then show ?thesis by (auto simp: set_zip)
qed

lemma write_back_related:
  assumes "list_all2 Q hs acc"
    and "\<And>i h'. (i, h') \<in> set changed \<Longrightarrow> i < length hs \<and> Q (hs ! i) h'"
  shows "list_all2 Q hs (fold (\<lambda>(i, h) acc. acc[i := h]) changed acc)"
  using assms
proof (induction changed arbitrary: acc)
  case Nil
  then show ?case by simp
next
  case (Cons x changed)
  obtain i h' where x: "x = (i, h')" by (cases x)
  from Cons.prems(2)[of i h'] x have i: "i < length hs" "Q (hs ! i) h'" by simp_all
  from Cons.prems(1) i have "list_all2 Q (hs[i := hs ! i]) (acc[i := h'])"
    by (intro list_all2_update_cong) simp_all
  then have q: "list_all2 Q hs (acc[i := h'])" by simp
  have "list_all2 Q hs (fold (\<lambda>(i, h) acc. acc[i := h]) changed (acc[i := h']))"
  proof (rule Cons.IH[OF q])
    fix j h'' assume "(j, h'') \<in> set changed"
    then show "j < length hs \<and> Q (hs ! j) h''" using Cons.prems(2)[of j h''] by simp
  qed
  then show ?case using x by simp
qed

lemma changed_positions:
  assumes "list_all2 (\<lambda>x y. fst y = fst x \<and> Q (snd x) (snd y)) order changed"
    and "\<And>i h. (i, h) \<in> set order \<Longrightarrow> i < length hs \<and> hs ! i = h"
    and "(i, h') \<in> set changed"
  shows "i < length hs \<and> Q (hs ! i) h'"
proof -
  from assms(3) obtain n where n: "n < length changed" "changed ! n = (i, h')"
    by (auto simp: in_set_conv_nth)
  from assms(1) n(1) have len: "n < length order" and
    r: "fst (changed ! n) = fst (order ! n) \<and> Q (snd (order ! n)) (snd (changed ! n))"
    by (auto simp: list_all2_conv_all_nth)
  obtain j h where o: "order ! n = (j, h)" by (cases "order ! n")
  with len have "(j, h) \<in> set order" by (metis nth_mem)
  from assms(2)[OF this] r n(2) o show ?thesis by simp
qed

lemma distribute_leaves:
  assumes R_refl: "\<And>x. R x x"
    and leaf: "\<And>E fa c l c' l' fa'.
      distribute_leaf E fa cs mtv u c l = Inr ((c', l'), fa') \<Longrightarrow> R (c, l) (c', l')"
  shows "distribute_free_assets hs E fa cs mtv u = Inr (hs', fa')
      \<Longrightarrow> list_all2 R (leaves hs) (leaves hs')"
    and "distribute_loop xs E fa cs mtv u = Inr (xs', fa')
      \<Longrightarrow> list_all2 (\<lambda>x y. fst y = fst x \<and> list_all2 R (leaves [snd x]) (leaves [snd y])) xs xs'"
  using leaf
proof (induction hs E fa cs mtv u and xs E fa cs mtv u arbitrary: hs' fa' and xs' fa'
    rule: distribute_free_assets_distribute_loop.induct)
  case (1 hs E fa cs mtv u)
  note lf = "1.prems"(2)
  from "1.prems"(1) obtain order changed where
    o: "sorted_holdings hs E = Inr order" and
    d: "distribute_loop order E fa cs mtv u = Inr (changed, fa')" and
    e: "hs' = write_back changed hs"
    by (subst (asm) distribute_free_assets.simps) (auto split: sum.splits)
  let ?Q = "\<lambda>h h'. list_all2 R (leaves [h]) (leaves [h'])"
  have r: "list_all2 (\<lambda>x y. fst y = fst x \<and> ?Q (snd x) (snd y)) order changed"
    by (rule "1.IH"[OF o d lf])
  have q: "list_all2 ?Q hs hs"
    by (rule list_all2_refl) (simp add: list_all2_refl R_refl)
  have "list_all2 ?Q hs hs'"
    unfolding e write_back_def
  proof (rule write_back_related[OF q])
    fix i h' assume "(i, h') \<in> set changed"
    with changed_positions[OF r] sorted_holdings_positions[OF o]
    show "i < length hs \<and> ?Q (hs ! i) h'" by blast
  qed
  then show ?case by (rule leaves_related)
next
  case (2 E fa cs mtv u)
  then show ?case by simp
next
  case (3 i c ch rest E fa cs mtv u)
  show ?case
  proof (cases "fa \<le> 0")
    case True
    with "3.prems"(1) have "xs' = (i, Group c ch) # rest" by simp
    then show ?thesis by (simp add: list_all2_refl R_refl)
  next
    case False
    note lf = "3.prems"(2)
    from False "3.prems"(1) obtain ch' fa1 v rest' where
      a: "distribute_free_assets ch (E * expected_weight c) fa cs mtv u = Inr (ch', fa1)" and
      s: "sum_values ch' = Inr v" and
      b: "distribute_loop rest E fa1 cs mtv u = Inr (rest', fa')" and
      e: "xs' = (i, Group (c\<lparr>value_fld := Some v\<rparr>) ch') # rest'"
      by (auto split: sum.splits)
    from "3.IH"(1)[OF False a lf] "3.IH"(2)[OF False a refl s b lf] e
    show ?thesis by simp
  qed
next
  case (4 i c l rest E fa cs mtv u)
  show ?case
  proof (cases "fa \<le> 0")
    case True
    with "4.prems"(1) have "xs' = (i, Leaf c l) # rest" by simp
    then show ?thesis by (simp add: list_all2_refl R_refl)
  next
    case False
    note lf = "4.prems"(2)
    from False "4.prems"(1) obtain c' l' fa1 rest' where
      a: "distribute_leaf E fa cs mtv u c l = Inr ((c', l'), fa1)" and
      b: "distribute_loop rest E fa1 cs mtv u = Inr (rest', fa')" and
      e: "xs' = (i, Leaf c' l') # rest'"
      by (auto split: sum.splits)
    from "4.IH"[OF False a refl refl b lf] lf[OF a] e
    show ?thesis by simp
  qed
qed


subsection \<open>One instrument in the rebalancer and in the distributor\<close>

lemma dec_truncate_floor: "0 \<le> q \<Longrightarrow> dec_truncate q = \<lfloor>q\<rfloor>"
  by (simp add: dec_truncate_def)

lemma rebalance_leaf_result:
  assumes "shares l = current_shares l" and "price l = Some p" and "p \<noteq> 0"
    and "get_weight E (current_value c) = Inr cw"
  shows "rebalance_leaf E cs mtv c l =
     (if cw = weight c then Inr (c, l)
      else if rebalanced_shares E cs c l p = current_shares l then Inr (c, l)
      else if rebalanced_shares E cs c l p < current_shares l \<and> selling_restricted c = Some True
      then Inr (on_sell_blocked c, l)
      else if rebalanced_shares E cs c l p > current_shares l \<and> buying_restricted c = Some True
      then Inr (on_buy_blocked c, l)
      else if of_int (abs (rebalanced_shares E cs c l p - current_shares l)) * p < mtv
      then (if rebalanced_shares E cs c l p < current_shares l
            then Inr (on_sell_blocked c, l) else Inr (on_buy_blocked c, l))
      else Inr (change c l p (rebalanced_shares E cs c l p) cs))"
  using assms
  by (simp add: rebalance_leaf_def rebalanced_shares_def dec_floordiv_def commission_for_def Let_def)

lemma rebalance_leaf_cases:
  assumes "rebalance_leaf E cs mtv c l = Inr (c', l')"
  shows "shares l = current_shares l \<and>
     (l' = l \<and> (c' = c \<or> c' = on_sell_blocked c \<or> c' = on_buy_blocked c)
      \<or> (\<exists>p n. price l = Some p \<and> n \<noteq> current_shares l \<and> \<not> trade_blocked mtv c l p n
            \<and> (c', l') = change c l p n cs))"
proof -
  from assms have s: "shares l = current_shares l"
    by (auto simp: rebalance_leaf_def Let_def split: if_splits)
  from assms s obtain cw where cw: "get_weight E (current_value c) = Inr cw"
    by (auto simp: rebalance_leaf_def Let_def split: sum.splits)
  show ?thesis
  proof (cases "cw = weight c")
    case True
    with assms s cw show ?thesis by (simp add: rebalance_leaf_def Let_def)
  next
    case False
    with assms s cw obtain p where p: "price l = Some p"
      by (auto simp: rebalance_leaf_def Let_def split: option.splits)
    with assms s cw False have p0: "p \<noteq> 0"
      by (auto simp: rebalance_leaf_def dec_floordiv_def Let_def split: if_splits)
    from assms show ?thesis
      unfolding rebalance_leaf_result[OF s p p0 cw]
      using s p False
      by (auto simp: trade_blocked_def split: if_splits)
  qed
qed

lemma limit_extra_shares_result:
  assumes "price l = Some p" and "p \<noteq> 0"
  shows "limit_extra_shares_to_minimum l n mtv = Inr (min n (extra_shares_cap mtv l p))"
  using assms
  by (simp add: limit_extra_shares_to_minimum_def extra_shares_cap_def dec_div_def Let_def)

lemma distribute_leaf_result:
  assumes "price l = Some p" and "p \<noteq> 0"
    and "\<not> u \<or> (\<exists>v. value_fld c = Some v \<and> v < E * expected_weight c)"
  shows "distribute_leaf E fa cs mtv u c l =
     (let n = distributed_extra_shares fa cs mtv l p in
      if 0 < n \<and> \<not> trade_blocked mtv c l p (shares l + n)
      then Inr (change c l p (shares l + n) cs,
                fa - (of_int n * p - (commission_for l p (shares l + n) cs - commission l)))
      else Inr ((c, l), fa))"
proof -
  from assms(3) have a: "(if \<not> u then Inr True
      else (case value_fld c of None \<Rightarrow> Inl TypeError | Some v \<Rightarrow> Inr (v < E * expected_weight c)))
    = (Inr True :: error + bool)"
    by auto
  show ?thesis
    unfolding distribute_leaf_def Let_def a
    using assms(1,2)
    by (auto simp: limit_extra_shares_result distributed_extra_shares_def dec_floordiv_def
        trade_blocked_def change_def commission_for_def Let_def)
qed

lemma distribute_leaf_cases:
  assumes "distribute_leaf E fa cs mtv u c l = Inr ((c', l'), fa')"
  shows "(c' = c \<and> l' = l \<and> fa' = fa)
     \<or> (\<exists>p n. price l = Some p \<and> 0 < n \<and> \<not> trade_blocked mtv c l p (shares l + n)
           \<and> n = distributed_extra_shares fa cs mtv l p
           \<and> (c', l') = change c l p (shares l + n) cs)"
proof (cases "\<not> u \<or> (\<exists>v. value_fld c = Some v \<and> v < E * expected_weight c)")
  case True
  then have a: "(if \<not> u then Inr True
      else (case value_fld c of None \<Rightarrow> Inl TypeError | Some v \<Rightarrow> Inr (v < E * expected_weight c)))
    = (Inr True :: error + bool)"
    by auto
  from assms obtain p where p: "price l = Some p"
    unfolding distribute_leaf_def Let_def a by (auto split: option.splits)
  with assms have p0: "p \<noteq> 0"
    unfolding distribute_leaf_def Let_def a by (auto simp: dec_floordiv_def split: if_splits)
  from assms show ?thesis
    unfolding distribute_leaf_result[OF p p0 True] Let_def
    using p by (auto split: if_splits)
next
  case False
  then have "u" and b: "value_fld c = None \<or> (\<exists>v. value_fld c = Some v \<and> \<not> v < E * expected_weight c)"
    by (cases "value_fld c"; auto)+
  with assms show ?thesis
    unfolding distribute_leaf_def Let_def by (auto split: option.splits)
qed

lemma change_fields:
  "change c l p n cs = (c', l') \<Longrightarrow>
     selling_restricted c' = selling_restricted c \<and> buying_restricted c' = buying_restricted c
     \<and> current_shares l' = current_shares l \<and> shares l' = n"
  by (auto simp: change_def)

lemma rebalance_leaf_restriction:
  assumes "rebalance_leaf E cs mtv c l = Inr (c', l')"
  shows "restriction_kept (c, l) (c', l') \<and> restriction_respected (c', l')"
proof -
  from rebalance_leaf_cases[OF assms] have s: "shares l = current_shares l" and
    d: "l' = l \<and> (c' = c \<or> c' = on_sell_blocked c \<or> c' = on_buy_blocked c)
      \<or> (\<exists>p n. price l = Some p \<and> n \<noteq> current_shares l \<and> \<not> trade_blocked mtv c l p n
            \<and> (c', l') = change c l p n cs)"
    by simp_all
  from d show ?thesis
  proof
    assume "l' = l \<and> (c' = c \<or> c' = on_sell_blocked c \<or> c' = on_buy_blocked c)"
    with s show ?thesis
      by (auto simp: restriction_kept_def restriction_respected_def on_sell_blocked_def
          on_buy_blocked_def)
  next
    assume "\<exists>p n. price l = Some p \<and> n \<noteq> current_shares l \<and> \<not> trade_blocked mtv c l p n
            \<and> (c', l') = change c l p n cs"
    then obtain p n where b: "\<not> trade_blocked mtv c l p n" and ch: "change c l p n cs = (c', l')"
      by auto
    from change_fields[OF ch] b show ?thesis
      by (auto simp: restriction_kept_def restriction_respected_def trade_blocked_def)
  qed
qed

lemma distribute_leaf_restriction:
  assumes "distribute_leaf E fa cs mtv u c l = Inr ((c', l'), fa')"
  shows "restriction_kept (c, l) (c', l')
     \<and> (restriction_respected (c, l) \<longrightarrow> restriction_respected (c', l'))"
proof -
  from distribute_leaf_cases[OF assms] show ?thesis
  proof
    assume "c' = c \<and> l' = l \<and> fa' = fa"
    then show ?thesis by (simp add: restriction_kept_def)
  next
    assume "\<exists>p n. price l = Some p \<and> 0 < n \<and> \<not> trade_blocked mtv c l p (shares l + n)
           \<and> n = distributed_extra_shares fa cs mtv l p
           \<and> (c', l') = change c l p (shares l + n) cs"
    then obtain p n where b: "\<not> trade_blocked mtv c l p (shares l + n)"
      and ch: "change c l p (shares l + n) cs = (c', l')"
      by auto
    from change_fields[OF ch] b show ?thesis
      by (auto simp: restriction_kept_def restriction_respected_def trade_blocked_def)
  qed
qed

lemma distribute_leaf_only_bought:
  assumes "distribute_leaf E fa cs mtv u c l = Inr ((c', l'), fa')"
  shows "only_bought (c, l) (c', l')"
proof -
  from distribute_leaf_cases[OF assms] show ?thesis
  proof
    assume "c' = c \<and> l' = l \<and> fa' = fa"
    then show ?thesis by (simp add: only_bought_def)
  next
    assume "\<exists>p n. price l = Some p \<and> 0 < n \<and> \<not> trade_blocked mtv c l p (shares l + n)
           \<and> n = distributed_extra_shares fa cs mtv l p
           \<and> (c', l') = change c l p (shares l + n) cs"
    then obtain p n where n: "0 < n" and ch: "change c l p (shares l + n) cs = (c', l')"
      by auto
    from change_fields[OF ch] n show ?thesis
      by (simp add: only_bought_def)
  qed
qed

lemma list_all2_second:
  "list_all2 (\<lambda>x y. R x y \<and> P y) xs ys \<Longrightarrow> list_all2 R xs ys \<and> list_all P ys"
  by (induction xs ys rule: list_all2_induct) simp_all

lemma list_all2_preserved:
  "list_all2 (\<lambda>x y. R x y \<and> (P x \<longrightarrow> P y)) xs ys \<Longrightarrow>
     list_all2 R xs ys \<and> (list_all P xs \<longrightarrow> list_all P ys)"
  by (induction xs ys rule: list_all2_induct) simp_all

lemma rebalance_restriction:
  assumes "rebalance hs E cs mtv = Inr (hs', v)"
  shows "list_all2 restriction_kept (leaves hs) (leaves hs')
     \<and> list_all restriction_respected (leaves hs')"
proof (rule list_all2_second)
  show "list_all2 (\<lambda>x y. restriction_kept x y \<and> restriction_respected y) (leaves hs) (leaves hs')"
  proof (rule rebalance_loop_leaves)
    show "rebalance_loop hs E cs mtv 0 = Inr (hs', v)"
      using assms by (simp add: rebalance_def)
  next
    fix E c l c' l'
    assume "rebalance_leaf E cs mtv c l = Inr (c', l')"
    then show "restriction_kept (c, l) (c', l') \<and> restriction_respected (c', l')"
      by (rule rebalance_leaf_restriction)
  qed
qed

lemma distribute_restriction:
  assumes "distribute_free_assets hs E fa cs mtv u = Inr (hs', fa')"
  shows "list_all2 restriction_kept (leaves hs) (leaves hs')
     \<and> (list_all restriction_respected (leaves hs) \<longrightarrow> list_all restriction_respected (leaves hs'))"
proof (rule list_all2_preserved)
  show "list_all2 (\<lambda>x y. restriction_kept x y \<and> (restriction_respected x \<longrightarrow> restriction_respected y))
      (leaves hs) (leaves hs')"
  proof (rule distribute_leaves(1)[OF _ _ assms])
    fix x :: "common_fields \<times> leaf_fields"
    show "restriction_kept x x \<and> (restriction_respected x \<longrightarrow> restriction_respected x)"
      by (cases x) (simp add: restriction_kept_def)
  next
    fix E fa c l c' l' fa'
    assume "distribute_leaf E fa cs mtv u c l = Inr ((c', l'), fa')"
    then show "restriction_kept (c, l) (c', l')
       \<and> (restriction_respected (c, l) \<longrightarrow> restriction_respected (c', l'))"
      by (rule distribute_leaf_restriction)
  qed
qed

lemma distribute_only_bought:
  assumes "distribute_free_assets hs E fa cs mtv u = Inr (hs', fa')"
  shows "list_all2 only_bought (leaves hs) (leaves hs')"
proof (rule distribute_leaves(1)[OF _ _ assms])
  fix x :: "common_fields \<times> leaf_fields"
  show "only_bought x x" by (simp add: only_bought_def)
next
  fix E fa c l c' l' fa'
  assume "distribute_leaf E fa cs mtv u c l = Inr ((c', l'), fa')"
  then show "only_bought (c, l) (c', l')" by (rule distribute_leaf_only_bought)
qed





text \<open>
  C9 (as the claim states it, refuted): for an instrument at price 10 with nothing bought
  yet and no minimum trade volume, a candidate of 5 extra shares comes back as 1 and a
  candidate of 0 as 0: the candidate is cut down to the bound, not raised to it.
\<close>

theorem extra_shares_clamp_counterexample:
  "limit_extra_shares_to_minimum scenario_leaf 5 0 = Inr 1
   \<and> limit_extra_shares_to_minimum scenario_leaf 0 0 = Inr 0
   \<and> limit_extra_shares_to_minimum scenario_leaf 5 0 \<noteq> Inr (max 5 (max 1 \<lceil>0 / 10 :: rat\<rceil>))"
  by (simp add: limit_extra_shares_to_minimum_def scenario_leaf_def dec_div_def)

text \<open>
  C9 (amended): for an instrument at a price \<open>p\<close> that is not zero, considered by a
  distribution pass: the candidate number of extra shares is the available cash plus
  the commission already accumulated, over the price, truncated towards zero (the floor
  where that is not negative), then cut down to at most the bound, which is the minimum
  trade volume expressed in shares (rounded up) less the shares already bought in this
  run, and at least 1. When the candidate is positive it is computed again from the cash
  less the marginal commission of the new total trade, and cut down to the same bound
  again (\<open>distributed_extra_shares\<close>). The trade is committed when that number is positive
  and the trade is not blocked.
\<close>

theorem distribution_share_clamp:
  assumes "price l = Some p" and "p \<noteq> 0"
    and "\<not> u \<or> (\<exists>v. value_fld c = Some v \<and> v < E * expected_weight c)"
  shows "limit_extra_shares_to_minimum l n mtv =
       Inr (min n (max 1 (\<lceil>mtv / p\<rceil>
              - (if shares l > current_shares l then shares l - current_shares l else 0))))
     \<and> distribute_leaf E fa cs mtv u c l =
       (if 0 < distributed_extra_shares fa cs mtv l p
           \<and> \<not> trade_blocked mtv c l p (shares l + distributed_extra_shares fa cs mtv l p)
        then Inr (change c l p (shares l + distributed_extra_shares fa cs mtv l p) cs,
                  fa - (of_int (distributed_extra_shares fa cs mtv l p) * p
                     - (commission_for l p (shares l + distributed_extra_shares fa cs mtv l p) cs
                          - commission l)))
        else Inr ((c, l), fa))
     \<and> distributed_extra_shares fa cs mtv l p =
       (if 0 < min (dec_truncate ((fa + commission l) / p)) (extra_shares_cap mtv l p)
        then min (dec_truncate ((fa + commission l
                    - CommissionSpec_calculate cs
                        (abs (shares l + min (dec_truncate ((fa + commission l) / p))
                                           (extra_shares_cap mtv l p) - current_shares l)) p) / p))
                 (extra_shares_cap mtv l p)
        else min (dec_truncate ((fa + commission l) / p)) (extra_shares_cap mtv l p))
     \<and> (0 \<le> (fa + commission l) / p \<longrightarrow>
          dec_truncate ((fa + commission l) / p) = \<lfloor>(fa + commission l) / p\<rfloor>)"
proof (intro conjI)
  show "limit_extra_shares_to_minimum l n mtv =
       Inr (min n (max 1 (\<lceil>mtv / p\<rceil>
              - (if shares l > current_shares l then shares l - current_shares l else 0))))"
    unfolding limit_extra_shares_result[OF assms(1,2)] extra_shares_cap_def by (rule refl)
  show "distribute_leaf E fa cs mtv u c l =
       (if 0 < distributed_extra_shares fa cs mtv l p
           \<and> \<not> trade_blocked mtv c l p (shares l + distributed_extra_shares fa cs mtv l p)
        then Inr (change c l p (shares l + distributed_extra_shares fa cs mtv l p) cs,
                  fa - (of_int (distributed_extra_shares fa cs mtv l p) * p
                     - (commission_for l p (shares l + distributed_extra_shares fa cs mtv l p) cs
                          - commission l)))
        else Inr ((c, l), fa))"
    unfolding distribute_leaf_result[OF assms] Let_def by (rule refl)
  show "distributed_extra_shares fa cs mtv l p =
       (if 0 < min (dec_truncate ((fa + commission l) / p)) (extra_shares_cap mtv l p)
        then min (dec_truncate ((fa + commission l
                    - CommissionSpec_calculate cs
                        (abs (shares l + min (dec_truncate ((fa + commission l) / p))
                                           (extra_shares_cap mtv l p) - current_shares l)) p) / p))
                 (extra_shares_cap mtv l p)
        else min (dec_truncate ((fa + commission l) / p)) (extra_shares_cap mtv l p))"
    unfolding distributed_extra_shares_def Let_def by (rule refl)
  show "0 \<le> (fa + commission l) / p \<longrightarrow>
          dec_truncate ((fa + commission l) / p) = \<lfloor>(fa + commission l) / p\<rfloor>"
    by (simp add: dec_truncate_floor)
qed

theorem distribution_share_clamp_witness:
  "price bought_leaf = Some 10 \<and> (10 :: rat) \<noteq> 0
   \<and> limit_extra_shares_to_minimum bought_leaf 7 0 = Inr 1
   \<and> distributed_extra_shares 18 (flat_fee 2) 0 bought_leaf 10 = 1
   \<and> distribute_leaf 80 18 (flat_fee 2) 0 False bought_common bought_leaf
        = Inr (change bought_common bought_leaf 10 6 (flat_fee 2), 10)"
proof -
  have a: "price bought_leaf = Some 10" "(10 :: rat) \<noteq> 0"
    "\<not> False \<or> (\<exists>v. value_fld bought_common = Some v \<and> v < 80 * expected_weight bought_common)"
    by (simp_all add: bought_leaf_def)
  have d: "distributed_extra_shares 18 (flat_fee 2) 0 bought_leaf 10 = 1"
    by code_simp
  have b: "\<not> trade_blocked 0 bought_common bought_leaf 10 6"
    by (simp add: trade_blocked_def bought_leaf_def bought_common_def new_common_def)
  have s: "shares bought_leaf = 5" "current_shares bought_leaf = 5" "commission bought_leaf = 0"
    by (simp_all add: bought_leaf_def)
  have f: "commission_for bought_leaf 10 6 (flat_fee 2) = 2"
    by (simp add: commission_for_def bought_leaf_def flat_fee_def CommissionSpec_calculate_def)
  have l: "limit_extra_shares_to_minimum bought_leaf 7 0 = Inr 1"
    using distribution_share_clamp[OF a, of 7 0 18 "flat_fee 2"] s by simp
  have t: "distribute_leaf 80 18 (flat_fee 2) 0 False bought_common bought_leaf
        = Inr (change bought_common bought_leaf 10 6 (flat_fee 2), 10)"
    using conjunct1[OF conjunct2[OF distribution_share_clamp[OF a, of 7 0 18 "flat_fee 2"]]]
    unfolding d s using b f s by simp
  from a(1,2) d l t show ?thesis by simp
qed

text \<open>
  C10: in every invocation of the free-cash distribution pass that returns, every
  instrument of the tree either is left as it was or has at least one share more than
  before: the pass never lowers a share count.
\<close>

theorem distribution_only_buys:
  "distribute_free_assets hs E fa cs mtv u = Inr (hs', fa')
   \<Longrightarrow> list_all2 only_bought (leaves hs) (leaves hs')"
  by (rule distribute_only_bought)

theorem distribution_only_buys_witness:
  "\<exists>hs' fa'. distribute_free_assets rebalanced_example 80 18 (flat_fee 2) 0 False = Inr (hs', fa')
     \<and> leaf_shares rebalanced_example = [1, 5] \<and> leaf_shares hs' = [1, 6] \<and> fa' = 10
     \<and> list_all2 only_bought (leaves rebalanced_example) (leaves hs')"
proof -
  have "case distribute_free_assets rebalanced_example 80 18 (flat_fee 2) 0 False of
      Inr (hs, f) \<Rightarrow> leaf_shares hs = [1, 6] \<and> f = 10 | _ \<Rightarrow> False"
    by code_simp
  then obtain hs' fa' where
    r: "distribute_free_assets rebalanced_example 80 18 (flat_fee 2) 0 False = Inr (hs', fa')"
      "leaf_shares hs' = [1, 6]" "fa' = 10"
    by (auto split: sum.splits)
  have s: "leaf_shares rebalanced_example = [1, 5]"
    by (simp add: rebalanced_example_def bought_leaf_def)
  from distribution_only_buys[OF r(1)] r s show ?thesis by blast
qed

text \<open>
  C3: after the rebalance pass every instrument still has its restrictions and its snapshot
  of the shares, and its share count is not below the snapshot if selling is restricted
  and not above it if buying is restricted: a trade the restrictions forbid is not
  committed, and the share count stays. The free-cash distribution pass keeps the
  restrictions and the snapshot too, and changes a share count only to one that respects
  the restrictions; so it preserves what the rebalance pass has established.
\<close>

theorem restriction_enforcement:
  "(rebalance hs E cs mtv = Inr (hs', v) \<longrightarrow>
      list_all2 restriction_kept (leaves hs) (leaves hs')
      \<and> list_all restriction_respected (leaves hs'))
   \<and> (distribute_free_assets hs E fa cs mtv u = Inr (hs'', fa') \<longrightarrow>
      list_all2 restriction_kept (leaves hs) (leaves hs'')
      \<and> (list_all restriction_respected (leaves hs) \<longrightarrow> list_all restriction_respected (leaves hs'')))"
  using rebalance_restriction[of hs E cs mtv hs' v] distribute_restriction[of hs E fa cs mtv u hs'' fa']
  by blast

theorem restriction_enforcement_witness:
  "\<exists>hs' v hs'' fa'.
     rebalance enforcement_example 120 (flat_fee 0) 0 = Inr (hs', v)
     \<and> leaf_shares hs' = [77, 10, 30] \<and> v = 117
     \<and> list_all2 restriction_kept (leaves enforcement_example) (leaves hs')
     \<and> list_all restriction_respected (leaves hs')
     \<and> distribute_free_assets hs' 117 3 (flat_fee 0) 0 False = Inr (hs'', fa')
     \<and> leaf_shares hs'' = [78, 10, 31] \<and> fa' = 1
     \<and> list_all2 restriction_kept (leaves hs') (leaves hs'')
     \<and> list_all restriction_respected (leaves hs'')"
proof -
  have "case rebalance enforcement_example 120 (flat_fee 0) 0 of
      Inr (hs, v) \<Rightarrow> leaf_shares hs = [77, 10, 30] \<and> v = 117
        \<and> (case distribute_free_assets hs 117 3 (flat_fee 0) 0 False of
             Inr (hs2, f) \<Rightarrow> leaf_shares hs2 = [78, 10, 31] \<and> f = 1 | _ \<Rightarrow> False)
    | _ \<Rightarrow> False"
    by code_simp
  then obtain hs' v hs'' fa' where
    r: "rebalance enforcement_example 120 (flat_fee 0) 0 = Inr (hs', v)"
      "leaf_shares hs' = [77, 10, 30]" "v = 117" and
    d: "distribute_free_assets hs' 117 3 (flat_fee 0) 0 False = Inr (hs'', fa')"
      "leaf_shares hs'' = [78, 10, 31]" "fa' = 1"
    by (auto split: sum.splits)
  from restriction_enforcement
    [of enforcement_example 120 "flat_fee 0" 0 hs' v] r(1)
  have a: "list_all2 restriction_kept (leaves enforcement_example) (leaves hs')"
    "list_all restriction_respected (leaves hs')"
    by blast+
  from restriction_enforcement[of hs' 117 "flat_fee 0" 0 _ _ 3 False hs'' fa'] d(1) a(2)
  have b: "list_all2 restriction_kept (leaves hs') (leaves hs'')"
    "list_all restriction_respected (leaves hs'')"
    by blast+
  from r d a b show ?thesis by blast
qed


subsection \<open>Where the total of the assets is kept and where it is not\<close>

lemma rebalance_loop_total:
  "rebalance_loop hs E cs mtv t = Inr (hs', t') \<Longrightarrow> \<exists>s. sum_values hs' = Inr s \<and> t' = t + s"
proof (induction hs E cs mtv t arbitrary: hs' t' rule: rebalance_loop.induct)
  case (1 E cs mtv t)
  then show ?case by simp
next
  case (2 c ch hs E cs mtv t)
  from "2.prems" obtain ch' v hs1 where
    a: "rebalance_loop ch (E * weight c) cs mtv 0 = Inr (ch', v)" and
    b: "rebalance_loop hs E cs mtv (t + v) = Inr (hs1, t')" and
    e: "hs' = Group (c\<lparr>value_fld := Some v\<rparr>) ch' # hs1"
    by (auto split: sum.splits)
  from "2.IH"(2)[OF a refl b] e show ?case by auto
next
  case (3 c l hs E cs mtv t)
  from "3.prems" obtain c' l' v hs1 where
    a: "rebalance_leaf E cs mtv c l = Inr (c', l')" and
    v: "value_fld c' = Some v" and
    b: "rebalance_loop hs E cs mtv (t + v) = Inr (hs1, t')" and
    e: "hs' = Leaf c' l' # hs1"
    by (auto split: sum.splits option.splits)
  from "3.IH"[OF a refl v b] v e show ?case by auto
qed

text \<open>
  The value \<open>rebalance\<close> returns is the sum of the \<open>value\<close> attributes of the top-level
  holdings it leaves; \<open>calculate\<close> takes the free assets after the rebalance pass to be
  the total assets less that value and the commissions.
\<close>

theorem rebalance_returns_sum_of_values:
  "rebalance hs E cs mtv = Inr (hs', v) \<Longrightarrow> sum_values hs' = Inr v"
  using rebalance_loop_total[of hs E cs mtv 0 hs' v] by (auto simp: rebalance_def)

theorem rebalance_returns_sum_of_values_witness:
  "\<exists>hs'. rebalance enforcement_example 120 (flat_fee 0) 0 = Inr (hs', 117)
     \<and> sum_values hs' = Inr 117"
proof -
  have "case rebalance enforcement_example 120 (flat_fee 0) 0 of
      Inr (hs, v) \<Rightarrow> v = 117 | _ \<Rightarrow> False"
    by code_simp
  then obtain hs' where r: "rebalance enforcement_example 120 (flat_fee 0) 0 = Inr (hs', 117)"
    by (auto split: sum.splits)
  from rebalance_returns_sum_of_values[OF r] r show ?thesis by blast
qed

text \<open>
  A trade the distributor commits on an instrument whose \<open>value\<close> is its shares times its
  price changes the sum of the instrument's value, its commission and the free assets by
  twice the change of the commission: the change of the commission is added to the free
  assets, not taken off.
\<close>

theorem distribution_trade_total:
  assumes "distribute_leaf E fa cs mtv u c l = Inr ((c', l'), fa')"
    and "price l = Some p" and "value_fld c = Some (of_int (shares l) * p)"
  shows "\<exists>v'. value_fld c' = Some v'
     \<and> v' + commission l' + fa'
         = of_int (shares l) * p + commission l + fa + 2 * (commission l' - commission l)"
proof -
  from distribute_leaf_cases[OF assms(1)] show ?thesis
  proof
    assume "c' = c \<and> l' = l \<and> fa' = fa"
    with assms(3) show ?thesis by simp
  next
    assume "\<exists>p n. price l = Some p \<and> 0 < n \<and> \<not> trade_blocked mtv c l p (shares l + n)
           \<and> n = distributed_extra_shares fa cs mtv l p
           \<and> (c', l') = change c l p (shares l + n) cs"
    with assms(2) obtain n where n: "0 < n" "\<not> trade_blocked mtv c l p (shares l + n)"
      "n = distributed_extra_shares fa cs mtv l p" and
      ch: "(c', l') = change c l p (shares l + n) cs"
      by auto
    have t: "\<not> u \<or> (\<exists>v. value_fld c = Some v \<and> v < E * expected_weight c)"
    proof (rule ccontr)
      assume "\<not> ?thesis"
      then have "u" and "\<not> of_int (shares l) * p < E * expected_weight c"
        using assms(3) by auto
      with assms(1,3) have "l' = l"
        by (simp add: distribute_leaf_def Let_def)
      with change_fields[OF ch[symmetric]] n(1) show False by simp
    qed
    then have a: "(if \<not> u then Inr True
        else (case value_fld c of None \<Rightarrow> Inl TypeError | Some v \<Rightarrow> Inr (v < E * expected_weight c)))
      = (Inr True :: error + bool)"
      by auto
    from assms(1,2) have p0: "p \<noteq> 0"
      unfolding distribute_leaf_def Let_def a by (auto simp: dec_floordiv_def split: if_splits)
    from assms(1) n(1,2) have "fa' = fa - (of_int n * p - (commission_for l p (shares l + n) cs - commission l))"
      unfolding distribute_leaf_result[OF assms(2) p0 t] Let_def n(3)[symmetric] by simp
    with ch show ?thesis
      by (simp add: change_def algebra_simps)
  qed
qed

theorem distribution_trade_total_witness:
  "distribute_leaf 80 18 (flat_fee 2) 0 False bought_common bought_leaf
     = Inr (change bought_common bought_leaf 10 6 (flat_fee 2), 10)
   \<and> price bought_leaf = Some 10
   \<and> value_fld bought_common = Some (of_int (shares bought_leaf) * 10)
   \<and> (\<exists>v'. value_fld (fst (change bought_common bought_leaf 10 6 (flat_fee 2))) = Some v'
        \<and> v' + commission (snd (change bought_common bought_leaf 10 6 (flat_fee 2))) + 10
            = of_int (shares bought_leaf) * 10 + commission bought_leaf + 18
              + 2 * (commission (snd (change bought_common bought_leaf 10 6 (flat_fee 2)))
                       - commission bought_leaf))
   \<and> commission (snd (change bought_common bought_leaf 10 6 (flat_fee 2))) = 2"
proof -
  have d: "distribute_leaf 80 18 (flat_fee 2) 0 False bought_common bought_leaf
     = Inr (change bought_common bought_leaf 10 6 (flat_fee 2), 10)"
    by code_simp
  have a: "price bought_leaf = Some 10"
    "value_fld bought_common = Some (of_int (shares bought_leaf) * 10)"
    by (simp_all add: bought_leaf_def bought_common_def new_common_def)
  have c: "commission (snd (change bought_common bought_leaf 10 6 (flat_fee 2))) = 2"
    by (simp add: change_def commission_for_def bought_leaf_def flat_fee_def
        CommissionSpec_calculate_def)
  obtain c' l' where e: "change bought_common bought_leaf 10 6 (flat_fee 2) = (c', l')"
    by (cases "change bought_common bought_leaf 10 6 (flat_fee 2)")
  from distribution_trade_total[OF d[unfolded e] a] d a c e show ?thesis
    by simp
qed


end
